theory Spec2Isabelle
  imports Main
begin

section \<open>Go strings, runes and slices\<close>

text \<open>
  A Go string is a sequence of bytes, here a \<^typ>\<open>string\<close>; \<open>len\<close> counts bytes.
  A Go \<open>int\<close> is an \<^typ>\<open>int\<close>: every quantity below is a length, a screen
  coordinate or a list index, far from the 64-bit range. A rune is an \<^typ>\<open>int\<close>.
\<close>

type_synonym rune = int

datatype panic = SliceBoundsOutOfRange | NilDereference

definition len :: "string \<Rightarrow> int" where
  "len s = int (length s)"

text \<open>\<open>s[:n]\<close> and \<open>s[n:]\<close> panic unless \<open>0 \<le> n \<le> len(s)\<close>.\<close>

definition slice_ok :: "string \<Rightarrow> int \<Rightarrow> bool" where
  "slice_ok s n = (0 \<le> n \<and> n \<le> len s)"

definition slice_to :: "string \<Rightarrow> int \<Rightarrow> string" where
  "slice_to s n = take (nat n) s"

definition slice_from :: "string \<Rightarrow> int \<Rightarrow> string" where
  "slice_from s n = drop (nat n) s"

text \<open>
  \<open>string(r)\<close>: the UTF-8 encoding of the rune; a rune outside the Unicode range or
  inside the surrogate range is encoded as U+FFFD.
\<close>

definition byte :: "int \<Rightarrow> char" where
  "byte n = char_of n"

definition string_of_rune :: "rune \<Rightarrow> string" where
  "string_of_rune r =
     (if r < 0 \<or> 1114111 < r \<or> (55296 \<le> r \<and> r \<le> 57343) then [byte 239, byte 191, byte 189]
      else if r \<le> 127 then [byte r]
      else if r \<le> 2047 then [byte (192 + r div 64), byte (128 + r mod 64)]
      else if r \<le> 65535 then
        [byte (224 + r div 4096), byte (128 + (r div 64) mod 64), byte (128 + r mod 64)]
      else
        [byte (240 + r div 262144), byte (128 + (r div 4096) mod 64),
         byte (128 + (r div 64) mod 64), byte (128 + r mod 64)])"

text \<open>
  The number of bytes \<open>utf8.DecodeRuneInString\<close> consumes at the head of a non-empty
  string: the length of a well-formed encoding, 1 for anything else.
\<close>

definition cont :: "char \<Rightarrow> bool" where
  "cont c = (128 \<le> (of_char c :: nat) \<and> (of_char c :: nat) \<le> 191)"

fun runeSize :: "string \<Rightarrow> nat" where
  "runeSize [] = 0"
| "runeSize (c0 # rest) =
     (let b0 = (of_char c0 :: nat) in
      if b0 < 194 \<or> 244 < b0 then 1
      else if b0 < 224 then
        (case rest of c1 # _ \<Rightarrow> if cont c1 then 2 else 1 | _ \<Rightarrow> 1)
      else if b0 < 240 then
        (case rest of c1 # c2 # _ \<Rightarrow>
           let b1 = (of_char c1 :: nat) in
           if (if b0 = 224 then 160 else 128) \<le> b1 \<and> b1 \<le> (if b0 = 237 then 159 else 191)
              \<and> cont c2
           then 3 else 1
         | _ \<Rightarrow> 1)
      else
        (case rest of c1 # c2 # c3 # _ \<Rightarrow>
           let b1 = (of_char c1 :: nat) in
           if (if b0 = 240 then 144 else 128) \<le> b1 \<and> b1 \<le> (if b0 = 244 then 143 else 191)
              \<and> cont c2 \<and> cont c3
           then 4 else 1
         | _ \<Rightarrow> 1))"

lemma runeSize_pos: "s \<noteq> [] \<Longrightarrow> 0 < runeSize s"
  by (cases s) (auto simp: Let_def split: list.splits)

lemma runeSize_le: "runeSize s \<le> length s"
  by (cases s) (auto simp: Let_def split: list.splits)

text \<open>The byte lengths of the runes of a string, decoded front to back.\<close>

function runeSizes :: "string \<Rightarrow> nat list" where
  "runeSizes s = (if s = [] then [] else runeSize s # runeSizes (drop (runeSize s) s))"
  by pat_completeness auto
termination
  by (relation "measure length") (auto simp: runeSize_pos)

declare runeSizes.simps [simp del]



section \<open>Key events\<close>

text \<open>
  The keys of the terminal library that the handlers tell apart; \<open>KeyOther\<close> stands
  for every other key. An event carries its key, its rune and whether Alt is held
  (\<open>event.Modifiers()&ModAlt > 0\<close>).
\<close>

datatype Key =
    KeyRune | KeyCtrlU | KeyCtrlK | KeyCtrlW | KeyBackspace | KeyBackspace2 | KeyDelete
  | KeyLeft | KeyRight | KeyHome | KeyCtrlA | KeyEnd | KeyCtrlE | KeyEnter | KeyEscape
  | KeyDown | KeyTab | KeyUp | KeyBacktab | KeyOther nat

record EventKey =
  evKey :: Key
  evRune :: rune
  evModAlt :: bool

section \<open>Box\<close>

text \<open>
  Modelled from the spec: Box, the base of every widget, is not among the sources. It
  owns the screen rectangle, the border flag, the padding and the answer to ``does this
  widget have focus''. The ``inner rect'' is the ``rectangle shrunk by border (1 cell
  per side if present) and padding'', ``clamped to non-negative''; a position is in the
  rectangle when it is inside it on both axes. The new box has no border, no padding and
  no focus; the rectangle it starts with, 15 by 10 cells at the origin, stands until
  SetRect assigns one.
\<close>

record Box =
  boxX :: int
  boxY :: int
  boxWidth :: int
  boxHeight :: int
  border :: bool
  paddingTop :: int
  paddingBottom :: int
  paddingLeft :: int
  paddingRight :: int
  hasFocus :: bool

definition NewBox :: Box where
  "NewBox =
     \<lparr>boxX = 0, boxY = 0, boxWidth = 15, boxHeight = 10, border = False, paddingTop = 0,
      paddingBottom = 0, paddingLeft = 0, paddingRight = 0, hasFocus = False\<rparr>"

definition SetRect :: "int \<Rightarrow> int \<Rightarrow> int \<Rightarrow> int \<Rightarrow> Box \<Rightarrow> Box" where
  "SetRect x y width height b = b\<lparr>boxX := x, boxY := y, boxWidth := width, boxHeight := height\<rparr>"

definition GetRect :: "Box \<Rightarrow> int \<times> int \<times> int \<times> int" where
  "GetRect b = (boxX b, boxY b, boxWidth b, boxHeight b)"

definition GetInnerRect :: "Box \<Rightarrow> int \<times> int \<times> int \<times> int" where
  "GetInnerRect b =
     (let (x, y, width, height) = GetRect b;
          (x1, y1, width1, height1) =
            (if border b then (x + 1, y + 1, width - 2, height - 2) else (x, y, width, height));
          x2 = x1 + paddingLeft b;
          y2 = y1 + paddingTop b;
          width2 = width1 - paddingLeft b - paddingRight b;
          height2 = height1 - paddingTop b - paddingBottom b
      in (x2, y2, if width2 < 0 then 0 else width2, if height2 < 0 then 0 else height2))"

definition InRect :: "Box \<Rightarrow> int \<Rightarrow> int \<Rightarrow> bool" where
  "InRect b x y =
     (let (rectX, rectY, width, height) = GetRect b
      in x \<ge> rectX \<and> x < rectX + width \<and> y \<ge> rectY \<and> y < rectY + height)"

section \<open>The autocomplete list\<close>

record ListItem =
  mainText :: string
  secondaryText :: string
  enabled :: bool

text \<open>
  Modelled from the spec: the List widget (NewList, Clear, AddItem, SetCurrentItem,
  GetCurrentItem, GetCurrentItemIndex, GetItemCount) is not among the sources. It holds
  the candidates in order and the index of the highlighted one. Its selection-change
  callback, which the input field sets to \<open>autocompleteChanged\<close>, is run by the input
  field's versions of AddItem and SetCurrentItem further down: for the first item added
  to an empty list and for a newly highlighted item (``compute a ghost suggestion from
  the first/selected candidate's unmatched suffix''). The input field reads the
  list's scroll bar setting when it places the list; the new list shows a scroll bar
  when it has more items than rows.
\<close>

datatype ScrollBarVisibility = ScrollBarNever | ScrollBarAuto | ScrollBarAlways

record List =
  items :: "ListItem list"
  currentItem :: int
  scrollBarVisibility :: ScrollBarVisibility

definition NewList :: List where
  "NewList = \<lparr>items = [], currentItem = 0, scrollBarVisibility = ScrollBarAuto\<rparr>"

definition Clear :: "List \<Rightarrow> List" where
  "Clear l = l\<lparr>items := [], currentItem := 0\<rparr>"

definition GetItemCount :: "List \<Rightarrow> int" where
  "GetItemCount l = int (length (items l))"

definition GetCurrentItemIndex :: "List \<Rightarrow> int" where
  "GetCurrentItemIndex l = currentItem l"

definition GetCurrentItem :: "List \<Rightarrow> ListItem option" where
  "GetCurrentItem l =
     (if 0 \<le> currentItem l \<and> currentItem l < GetItemCount l
      then Some (items l ! nat (currentItem l)) else None)"

section \<open>InputField\<close>

text \<open>
  The fields of the struct, without the colours (\<open>text'\<close> and \<open>done'\<close> are the
  fields \<open>text\<close> and \<open>done\<close>). A callback field holds whether a handler
  is installed; the calls made to it are recorded, in order, with their arguments. The
  acceptance function and the autocomplete generator are the functions themselves.
\<close>

record InputField =
  box :: Box
  text' :: string
  label :: string
  placeholder :: string
  fieldNote :: string
  labelWidth :: int
  fieldWidth :: int
  maskCharacter :: rune
  cursorPos :: int
  autocomplete :: "(string \<Rightarrow> ListItem list) option"
  autocompleteList :: "List option"
  autocompleteListSuggestion :: string
  accept :: "(string \<Rightarrow> rune \<Rightarrow> bool) option"
  changed :: bool
  done' :: bool
  finished :: bool
  fieldX :: int
  offset :: int
  changedCalls :: "string list"
  doneCalls :: "Key list"
  finishedCalls :: "Key list"

definition SetText :: "string \<Rightarrow> InputField \<Rightarrow> InputField" where
  "SetText t i =
     (let i1 = i\<lparr>text' := t, cursorPos := len t\<rparr>
      in if changed i1 then i1\<lparr>changedCalls := changedCalls i1 @ [t]\<rparr> else i1)"


definition SetCursorPosition :: "int \<Rightarrow> InputField \<Rightarrow> InputField" where
  "SetCursorPosition p i = i\<lparr>cursorPos := p\<rparr>"


definition autocompleteChanged :: "int \<Rightarrow> ListItem \<Rightarrow> InputField \<Rightarrow> InputField" where
  "autocompleteChanged index item i =
     (if len (secondaryText item) > 0 \<and> len (text' i) < len (secondaryText item) then
        i\<lparr>autocompleteListSuggestion := slice_from (secondaryText item) (len (text' i))\<rparr>
      else if len (mainText item) > len (text' i) + 1 then
        i\<lparr>autocompleteListSuggestion := slice_from (mainText item) (len (text' i) + 1)\<rparr>
      else i\<lparr>autocompleteListSuggestion := []\<rparr>)"

text \<open>
  Modelled from the spec: AddItem and SetCurrentItem of the List widget (not among the
  sources), applied to the list the input field owns. AddItem appends the candidate and
  runs the selection-change callback for the first item of a list that was empty;
  SetCurrentItem highlights an index of the list and runs the callback when the
  highlighted index changes.
\<close>

definition AddItem :: "ListItem \<Rightarrow> InputField \<Rightarrow> InputField" where
  "AddItem entry i =
     (case autocompleteList i of
        None \<Rightarrow> i
      | Some l \<Rightarrow>
          let i1 = i\<lparr>autocompleteList := Some (l\<lparr>items := items l @ [entry]\<rparr>)\<rparr>
          in if items l = [] then autocompleteChanged 0 entry i1 else i1)"

definition SetCurrentItem :: "int \<Rightarrow> InputField \<Rightarrow> InputField" where
  "SetCurrentItem index i =
     (case autocompleteList i of
        None \<Rightarrow> i
      | Some l \<Rightarrow>
          if 0 \<le> index \<and> index < GetItemCount l \<and> index \<noteq> currentItem l then
            autocompleteChanged index (items l ! nat index)
              (i\<lparr>autocompleteList := Some (l\<lparr>currentItem := index\<rparr>)\<rparr>)
          else i)"

text \<open>
  The loop of Autocomplete over the entries: each entry is enabled and added, and the
  first entry whose main text is the field's text is remembered.
\<close>

fun fillEntries :: "ListItem list \<Rightarrow> int \<Rightarrow> int \<Rightarrow> InputField \<Rightarrow> int \<times> InputField" where
  "fillEntries [] index currentEntry i = (currentEntry, i)"
| "fillEntries (entry # entries) index currentEntry i =
     (let i1 = AddItem (entry\<lparr>enabled := True\<rparr>) i;
          currentEntry1 =
            (if currentEntry < 0 \<and> mainText entry = text' i1 then index else currentEntry)
      in fillEntries entries (index + 1) currentEntry1 i1)"

definition Autocomplete :: "InputField \<Rightarrow> InputField" where
  "Autocomplete i =
     (case autocomplete i of
        None \<Rightarrow> i
      | Some generator \<Rightarrow>
          let entries = generator (text' i) in
          if length entries = 0 then
            i\<lparr>autocompleteList := None, autocompleteListSuggestion := []\<rparr>
          else
            let i1 = (if autocompleteList i = None then i\<lparr>autocompleteList := Some NewList\<rparr>
                      else i);
                i2 = i1\<lparr>autocompleteList := map_option Clear (autocompleteList i1)\<rparr>;
                (currentEntry, i3) = fillEntries entries 0 (-1) i2
            in if currentEntry \<ge> 0 then SetCurrentItem currentEntry i3 else i3)"

section \<open>Grapheme clusters and word patterns\<close>

text \<open>
  The segmentation of a string into grapheme clusters and their screen widths comes from
  two libraries outside the repository. It is a parameter: for a string, the byte length
  and the screen width of each of its clusters, in order. A segmentation is well formed
  when the clusters are non-empty and cover the string.
\<close>

type_synonym graphemes = "string \<Rightarrow> (nat \<times> int) list"

definition wf_graphemes :: "graphemes \<Rightarrow> bool" where
  "wf_graphemes g = (\<forall>s. sum_list (map fst (g s)) = length s \<and> (\<forall>c \<in> set (g s). 0 < fst c))"

text \<open>The segmentation that takes every byte for a cluster of width 1.\<close>

definition bytewise :: graphemes where
  "bytewise s = map (\<lambda>c. (1, 1)) s"

text \<open>
  Modelled from the spec: iterateString and iterateStringReverse (the file of text
  utilities is not among the sources) traverse the clusters of a string forward or
  backward, ``yielding for each unit its byte offset, its byte length, its cumulative
  screen-column offset, and its screen-column width''. The traversal is the list of
  these values, \<open>(textPos, textWidth, screenPos, screenWidth)\<close>; a visitor that stops
  the traversal reads a prefix of it.
\<close>

type_synonym cluster = "int \<times> int \<times> int \<times> int"

fun clustersFrom :: "(nat \<times> int) list \<Rightarrow> int \<Rightarrow> int \<Rightarrow> cluster list" where
  "clustersFrom [] textPos screenPos = []"
| "clustersFrom ((n, w) # gs) textPos screenPos =
     (textPos, int n, screenPos, w) # clustersFrom gs (textPos + int n) (screenPos + w)"

definition iterateString :: "graphemes \<Rightarrow> string \<Rightarrow> cluster list" where
  "iterateString g s = clustersFrom (g s) 0 0"

definition iterateStringReverse :: "graphemes \<Rightarrow> string \<Rightarrow> cluster list" where
  "iterateStringReverse g s = rev (iterateString g s)"

text \<open>
  The two patterns of the input field, each with the one use the source makes of it,
  \<open>ReplaceAllString(s, "")\<close>. A word character \<open>\w\<close> is an ASCII letter, digit or
  underscore; \<open>\W\<close> is any other rune, decoded as the pattern matcher decodes it.

  \<open>regexRightWord\<close> is \<open>(\w*|\W)$\<close>: the leftmost match ends at the end of the
  string, so it is the trailing run of word characters or, when the string ends in
  another rune, that rune. \<open>regexLeftWord\<close> is \<open>^(\W|\w*)\<close>: the rune at the head
  when it is no word character, the leading run of word characters otherwise.
\<close>

definition wordChar :: "char \<Rightarrow> bool" where
  "wordChar c =
     (let b = (of_char c :: nat)
      in (48 \<le> b \<and> b \<le> 57) \<or> (65 \<le> b \<and> b \<le> 90) \<or> b = 95 \<or> (97 \<le> b \<and> b \<le> 122))"

definition regexRightWord :: "string \<Rightarrow> string" where
  "regexRightWord s =
     (if s = [] then []
      else if wordChar (last s) then rev (dropWhile wordChar (rev s))
      else take (length s - last (runeSizes s)) s)"

definition regexLeftWord :: "string \<Rightarrow> string" where
  "regexLeftWord s =
     (case s of
        [] \<Rightarrow> []
      | c # _ \<Rightarrow> if \<not> wordChar c then drop (runeSize s) s else dropWhile wordChar s)"

section \<open>The input handler of the input field\<close>

definition home :: "InputField \<Rightarrow> InputField" where
  "home i = i\<lparr>cursorPos := 0\<rparr>"

definition end' :: "InputField \<Rightarrow> InputField" where
  "end' i = i\<lparr>cursorPos := len (text' i)\<rparr>"

definition moveLeft :: "graphemes \<Rightarrow> InputField \<Rightarrow> panic + InputField" where
  "moveLeft g i =
     (if \<not> slice_ok (text' i) (cursorPos i) then Inl SliceBoundsOutOfRange
      else case iterateStringReverse g (slice_to (text' i) (cursorPos i)) of
          [] \<Rightarrow> Inr i
        | (textPos, textWidth, screenPos, screenWidth) # _ \<Rightarrow>
            Inr (i\<lparr>cursorPos := cursorPos i - textWidth\<rparr>))"

definition moveRight :: "graphemes \<Rightarrow> InputField \<Rightarrow> panic + InputField" where
  "moveRight g i =
     (if \<not> slice_ok (text' i) (cursorPos i) then Inl SliceBoundsOutOfRange
      else case iterateString g (slice_from (text' i) (cursorPos i)) of
          [] \<Rightarrow> Inr i
        | (textPos, textWidth, screenPos, screenWidth) # _ \<Rightarrow>
            Inr (i\<lparr>cursorPos := cursorPos i + textWidth\<rparr>))"

definition moveWordLeft :: "InputField \<Rightarrow> panic + InputField" where
  "moveWordLeft i =
     (if \<not> slice_ok (text' i) (cursorPos i) then Inl SliceBoundsOutOfRange
      else Inr (i\<lparr>cursorPos := len (regexRightWord (slice_to (text' i) (cursorPos i)))\<rparr>))"

definition moveWordRight :: "InputField \<Rightarrow> panic + InputField" where
  "moveWordRight i =
     (if \<not> slice_ok (text' i) (cursorPos i) then Inl SliceBoundsOutOfRange
      else Inr (i\<lparr>cursorPos :=
                    len (text' i) - len (regexLeftWord (slice_from (text' i) (cursorPos i)))\<rparr>))"

text \<open>\<open>add\<close> returns whether the rune was accepted, and the field.\<close>

definition add :: "rune \<Rightarrow> InputField \<Rightarrow> panic + bool \<times> InputField" where
  "add r i =
     (if \<not> slice_ok (text' i) (cursorPos i) then Inl SliceBoundsOutOfRange
      else
        let newText = slice_to (text' i) (cursorPos i) @ string_of_rune r
                        @ slice_from (text' i) (cursorPos i)
        in if (case accept i of None \<Rightarrow> False | Some a \<Rightarrow> \<not> a newText r) then Inr (False, i)
           else Inr (True, i\<lparr>text' := newText, cursorPos := cursorPos i + len (string_of_rune r)\<rparr>))"

definition finish :: "Key \<Rightarrow> InputField \<Rightarrow> InputField" where
  "finish key i =
     (let i1 = (if done' i then i\<lparr>doneCalls := doneCalls i @ [key]\<rparr> else i)
      in if finished i1 then i1\<lparr>finishedCalls := finishedCalls i1 @ [key]\<rparr> else i1)"

text \<open>The cases of the key switch that are written out in the source.\<close>

definition addRune :: "rune \<Rightarrow> InputField \<Rightarrow> panic + InputField" where
  "addRune r i = (case add r i of Inl p \<Rightarrow> Inl p | Inr (accepted, i1) \<Rightarrow> Inr i1)"

definition deleteLastWord :: "InputField \<Rightarrow> panic + InputField" where
  "deleteLastWord i =
     (if \<not> slice_ok (text' i) (cursorPos i) then Inl SliceBoundsOutOfRange
      else
        let newText = regexRightWord (slice_to (text' i) (cursorPos i))
                        @ slice_from (text' i) (cursorPos i)
        in Inr (i\<lparr>cursorPos := cursorPos i - (len (text' i) - len newText), text' := newText\<rparr>))"

definition deleteBefore :: "graphemes \<Rightarrow> InputField \<Rightarrow> panic + InputField" where
  "deleteBefore g i =
     (if \<not> slice_ok (text' i) (cursorPos i) then Inl SliceBoundsOutOfRange
      else
        case (case iterateStringReverse g (slice_to (text' i) (cursorPos i)) of
                [] \<Rightarrow> Inr i
              | (textPos, textWidth, screenPos, screenWidth) # _ \<Rightarrow>
                  if \<not> slice_ok (text' i) textPos \<or> \<not> slice_ok (text' i) (textPos + textWidth)
                  then Inl SliceBoundsOutOfRange
                  else Inr (i\<lparr>text' := slice_to (text' i) textPos
                                          @ slice_from (text' i) (textPos + textWidth),
                                cursorPos := cursorPos i - textWidth\<rparr>))
        of Inl p \<Rightarrow> Inl p
         | Inr i1 \<Rightarrow> Inr (if offset i1 \<ge> cursorPos i1 then i1\<lparr>offset := 0\<rparr> else i1))"

definition deleteAfter :: "graphemes \<Rightarrow> InputField \<Rightarrow> panic + InputField" where
  "deleteAfter g i =
     (if \<not> slice_ok (text' i) (cursorPos i) then Inl SliceBoundsOutOfRange
      else case iterateString g (slice_from (text' i) (cursorPos i)) of
          [] \<Rightarrow> Inr i
        | (textPos, textWidth, screenPos, screenWidth) # _ \<Rightarrow>
            if \<not> slice_ok (text' i) (cursorPos i + textWidth) then Inl SliceBoundsOutOfRange
            else Inr (i\<lparr>text' := slice_to (text' i) (cursorPos i)
                                    @ slice_from (text' i) (cursorPos i + textWidth)\<rparr>))"

definition acceptEntry :: "List \<Rightarrow> InputField \<Rightarrow> panic + InputField" where
  "acceptEntry l i =
     (case GetCurrentItem l of
        None \<Rightarrow> Inl NilDereference
      | Some item \<Rightarrow>
          let selectionText = (if secondaryText item \<noteq> [] then secondaryText item
                               else mainText item);
              i1 = SetText selectionText i
          in Inr (i1\<lparr>autocompleteList := None, autocompleteListSuggestion := []\<rparr>))"

definition nextEntry :: "List \<Rightarrow> InputField \<Rightarrow> InputField" where
  "nextEntry l i =
     (let count = GetItemCount l;
          newEntry = GetCurrentItemIndex l + 1
      in SetCurrentItem (if newEntry \<ge> count then 0 else newEntry) i)"

definition previousEntry :: "List \<Rightarrow> InputField \<Rightarrow> InputField" where
  "previousEntry l i =
     (let newEntry = GetCurrentItemIndex l - 1
      in SetCurrentItem (if newEntry < 0 then GetItemCount l - 1 else newEntry) i)"

fun processKey :: "graphemes \<Rightarrow> Key \<Rightarrow> EventKey \<Rightarrow> InputField \<Rightarrow> panic + InputField" where
  "processKey g KeyRune event i =
     (if evModAlt event then
        (if evRune event = 97 then Inr (home i)
         else if evRune event = 101 then Inr (end' i)
         else if evRune event = 98 then moveWordLeft i
         else if evRune event = 102 then moveWordRight i
         else addRune (evRune event) i)
      else addRune (evRune event) i)"
| "processKey g KeyCtrlU event i = Inr (i\<lparr>text' := [], cursorPos := 0\<rparr>)"
| "processKey g KeyCtrlK event i =
     (if \<not> slice_ok (text' i) (cursorPos i) then Inl SliceBoundsOutOfRange
      else Inr (i\<lparr>text' := slice_to (text' i) (cursorPos i)\<rparr>))"
| "processKey g KeyCtrlW event i = deleteLastWord i"
| "processKey g KeyBackspace event i = deleteBefore g i"
| "processKey g KeyBackspace2 event i = deleteBefore g i"
| "processKey g KeyDelete event i = deleteAfter g i"
| "processKey g KeyLeft event i = (if evModAlt event then moveWordLeft i else moveLeft g i)"
| "processKey g KeyRight event i = (if evModAlt event then moveWordRight i else moveRight g i)"
| "processKey g KeyHome event i = Inr (home i)"
| "processKey g KeyCtrlA event i = Inr (home i)"
| "processKey g KeyEnd event i = Inr (end' i)"
| "processKey g KeyCtrlE event i = Inr (end' i)"
| "processKey g KeyEnter event i =
     (case autocompleteList i of
        Some l \<Rightarrow> acceptEntry l i
      | None \<Rightarrow> Inr (finish KeyEnter i))"
| "processKey g KeyEscape event i =
     (case autocompleteList i of
        Some l \<Rightarrow> Inr (i\<lparr>autocompleteList := None, autocompleteListSuggestion := []\<rparr>)
      | None \<Rightarrow> Inr (finish KeyEscape i))"
| "processKey g KeyDown event i =
     (case autocompleteList i of Some l \<Rightarrow> Inr (nextEntry l i) | None \<Rightarrow> Inr (finish KeyDown i))"
| "processKey g KeyTab event i =
     (case autocompleteList i of Some l \<Rightarrow> Inr (nextEntry l i) | None \<Rightarrow> Inr (finish KeyTab i))"
| "processKey g KeyUp event i =
     (case autocompleteList i of
        Some l \<Rightarrow> Inr (previousEntry l i)
      | None \<Rightarrow> Inr (finish KeyUp i))"
| "processKey g KeyBacktab event i =
     (case autocompleteList i of
        Some l \<Rightarrow> Inr (previousEntry l i)
      | None \<Rightarrow> Inr (finish KeyBacktab i))"
| "processKey g (KeyOther k) event i = Inr i"

text \<open>
  The deferred function of the handler: when the text is no longer the text the handler
  started with, the autocomplete generator runs and the changed handler is called.
\<close>

definition triggerChanged :: "string \<Rightarrow> InputField \<Rightarrow> InputField" where
  "triggerChanged currentText i =
     (if text' i \<noteq> currentText then
        let i1 = Autocomplete i
        in if changed i1 then i1\<lparr>changedCalls := changedCalls i1 @ [text' i1]\<rparr> else i1
      else i)"

text \<open>
  Modelled from the spec: WrapInputHandler belongs to Box, which is not among the
  sources; it ``returns a handler with identical signature'' that hands the event to
  the handler it wraps.
\<close>

definition WrapInputHandler :: "(EventKey \<Rightarrow> 'w \<Rightarrow> 'r) \<Rightarrow> EventKey \<Rightarrow> 'w \<Rightarrow> 'r" where
  "WrapInputHandler inputHandler event w = inputHandler event w"

definition InputHandler :: "graphemes \<Rightarrow> EventKey \<Rightarrow> InputField \<Rightarrow> panic + InputField" where
  "InputHandler g =
     WrapInputHandler (\<lambda>event i.
       let currentText = text' i
       in case processKey g (evKey event) event i of
            Inl p \<Rightarrow> Inl p
          | Inr i1 \<Rightarrow> Inr (triggerChanged currentText i1))"

text \<open>A sequence of key events, handled in order; a panic ends it.\<close>

fun handleKeys :: "graphemes \<Rightarrow> EventKey list \<Rightarrow> InputField \<Rightarrow> panic + InputField" where
  "handleKeys g [] i = Inr i"
| "handleKeys g (event # events) i =
     (case InputHandler g event i of Inl p \<Rightarrow> Inl p | Inr i1 \<Rightarrow> handleKeys g events i1)"

section \<open>Drawing the input field\<close>

text \<open>
  Modelled from the spec: the text utilities stringWidth, Escape, TaggedStringWidth, Print
  and WordWrap are not among the sources (nor are the libraries behind them); they are
  parameters. \<open>PrintWidth text maxWidth\<close> is the width Print reports as drawn.
\<close>

record TextUtil =
  graphemesOf :: graphemes
  stringWidth :: "string \<Rightarrow> int"
  Escape :: "string \<Rightarrow> string"
  TaggedStringWidth :: "string \<Rightarrow> int"
  PrintWidth :: "string \<Rightarrow> int \<Rightarrow> int"
  WordWrap :: "string \<Rightarrow> int \<Rightarrow> string list"












section \<open>Mouse events and key bindings\<close>

text \<open>
  A mouse event carries its position; the action is classified by the caller, and the
  handlers tell the left click from every other action.
\<close>

datatype MouseAction = MouseLeftClick | MouseOtherAction nat

record EventMouse =
  mouseX :: int
  mouseY :: int

definition Position :: "EventMouse \<Rightarrow> int \<times> int" where
  "Position event = (mouseX event, mouseY event)"

text \<open>
  Modelled from the spec: the key bindings \<open>Keys\<close> and HitShortcut are not among the
  sources. ``Key-matching is done through a shortcut-comparison contract
  (HitShortcut(event, candidateBindings...))'': each binding lists the key events it
  stands for, and an event hits when one of the candidate bindings lists it.
  WrapMouseHandler, like WrapInputHandler, hands the event to the handler it wraps.
\<close>

record KeyBindings =
  Select :: "EventKey list"
  Select2 :: "EventKey list"
  Cancel :: "EventKey list"
  MovePreviousField :: "EventKey list"
  MoveNextField :: "EventKey list"

definition HitShortcut :: "EventKey \<Rightarrow> EventKey list list \<Rightarrow> bool" where
  "HitShortcut event keybindings = (event \<in> set (concat keybindings))"

definition WrapMouseHandler ::
  "(MouseAction \<Rightarrow> EventMouse \<Rightarrow> 'w \<Rightarrow> 'r) \<Rightarrow> MouseAction \<Rightarrow> EventMouse \<Rightarrow> 'w \<Rightarrow> 'r" where
  "WrapMouseHandler mouseHandler action event w = mouseHandler action event w"

section \<open>CheckBox\<close>

text \<open>
  The fields of the struct, without the colours, each with the prefix \<open>cb\<close> where the
  input field has a field of the same name. The callbacks are recorded as for the input
  field; \<open>cbSetFocusCalls\<close> counts the calls of the \<open>setFocus\<close> function a handler is
  given.
\<close>

record CheckBox =
  cbBox :: Box
  checked :: bool
  cbLabel :: string
  message :: string
  cbLabelWidth :: int
  checkedRune :: rune
  cbChanged :: bool
  cbDone :: bool
  cbFinished :: bool
  cbChangedCalls :: "bool list"
  cbDoneCalls :: "Key list"
  cbFinishedCalls :: "Key list"
  cbSetFocusCalls :: nat

definition NewCheckBox :: CheckBox where
  "NewCheckBox =
     \<lparr>cbBox = NewBox, checked = False, cbLabel = [], message = [], cbLabelWidth = 0,
      checkedRune = 88, cbChanged = False, cbDone = False, cbFinished = False,
      cbChangedCalls = [], cbDoneCalls = [], cbFinishedCalls = [], cbSetFocusCalls = 0\<rparr>"

definition SetChecked :: "bool \<Rightarrow> CheckBox \<Rightarrow> CheckBox" where
  "SetChecked b c = c\<lparr>checked := b\<rparr>"

definition IsChecked :: "CheckBox \<Rightarrow> bool" where
  "IsChecked c = checked c"

definition CheckBox_InputHandler :: "KeyBindings \<Rightarrow> EventKey \<Rightarrow> CheckBox \<Rightarrow> CheckBox" where
  "CheckBox_InputHandler Keys =
     WrapInputHandler (\<lambda>event c.
       if HitShortcut event [Select Keys, Select2 Keys] then
         let c1 = c\<lparr>checked := \<not> checked c\<rparr>
         in if cbChanged c1 then c1\<lparr>cbChangedCalls := cbChangedCalls c1 @ [checked c1]\<rparr> else c1
       else if HitShortcut event [Cancel Keys, MovePreviousField Keys, MoveNextField Keys] then
         let c1 = (if cbDone c then c\<lparr>cbDoneCalls := cbDoneCalls c @ [evKey event]\<rparr> else c)
         in if cbFinished c1 then c1\<lparr>cbFinishedCalls := cbFinishedCalls c1 @ [evKey event]\<rparr>
            else c1
       else c)"

text \<open>
  The mouse handler returns whether it consumed the event, and the checkbox; the
  primitive it returns to capture the mouse is nil on every path.
\<close>

definition CheckBox_MouseHandler ::
  "MouseAction \<Rightarrow> EventMouse \<Rightarrow> CheckBox \<Rightarrow> bool \<times> CheckBox" where
  "CheckBox_MouseHandler =
     WrapMouseHandler (\<lambda>action event c.
       let (x, y) = Position event;
           (rectX, rectY, rectWidth, rectHeight) = GetInnerRect (cbBox c)
       in if \<not> InRect (cbBox c) x y then (False, c)
          else if action = MouseLeftClick \<and> y = rectY then
            let c1 = c\<lparr>cbSetFocusCalls := cbSetFocusCalls c + 1\<rparr>;
                c2 = c1\<lparr>checked := \<not> checked c1\<rparr>;
                c3 = (if cbChanged c2 then c2\<lparr>cbChangedCalls := cbChangedCalls c2 @ [checked c2]\<rparr>
                      else c2)
            in (True, c3)
          else (False, c))"

text \<open>The events a checkbox receives, and a sequence of them delivered in order.\<close>

datatype CheckBoxEvent = KeyEvent EventKey | MouseEvent MouseAction EventMouse

fun deliver :: "KeyBindings \<Rightarrow> CheckBoxEvent \<Rightarrow> CheckBox \<Rightarrow> CheckBox" where
  "deliver Keys (KeyEvent event) c = CheckBox_InputHandler Keys event c"
| "deliver Keys (MouseEvent action event) c = snd (CheckBox_MouseHandler action event c)"

fun deliverAll :: "KeyBindings \<Rightarrow> CheckBoxEvent list \<Rightarrow> CheckBox \<Rightarrow> CheckBox" where
  "deliverAll Keys [] c = c"
| "deliverAll Keys (e # events) c = deliverAll Keys events (deliver Keys e c)"

text \<open>
  A Select key press, or a left click at a position inside the rectangle of the checkbox.
\<close>

definition selectOrClickInside :: "KeyBindings \<Rightarrow> CheckBox \<Rightarrow> CheckBoxEvent \<Rightarrow> bool" where
  "selectOrClickInside Keys c e =
     (case e of
        KeyEvent event \<Rightarrow> HitShortcut event [Select Keys, Select2 Keys]
      | MouseEvent action event \<Rightarrow>
          action = MouseLeftClick \<and> InRect (cbBox c) (mouseX event) (mouseY event))"

text \<open>
  The same, with the click on the row of the inner rectangle, the row the checkbox is
  drawn on.
\<close>

definition selectOrClickOnRow :: "KeyBindings \<Rightarrow> CheckBox \<Rightarrow> CheckBoxEvent \<Rightarrow> bool" where
  "selectOrClickOnRow Keys c e =
     (case e of
        KeyEvent event \<Rightarrow> HitShortcut event [Select Keys, Select2 Keys]
      | MouseEvent action event \<Rightarrow>
          action = MouseLeftClick \<and> InRect (cbBox c) (mouseX event) (mouseY event)
          \<and> mouseY event = fst (snd (GetInnerRect (cbBox c))))"

text \<open>The values a boolean takes when it is flipped \<open>n\<close> times, starting with \<open>b\<close>.\<close>

fun alternating :: "bool \<Rightarrow> nat \<Rightarrow> bool list" where
  "alternating b 0 = []"
| "alternating b (Suc n) = b # alternating (\<not> b) n"

section \<open>Modal\<close>

text \<open>Go's \<open>/\<close> on integers truncates towards zero.\<close>

definition quo :: "int \<Rightarrow> int \<Rightarrow> int" where
  "quo a b = (if (a < 0) = (b < 0) then \<bar>a\<bar> div \<bar>b\<bar> else - (\<bar>a\<bar> div \<bar>b\<bar>))"

text \<open>
  Modelled from the spec: Button, Form and Frame are not among the sources. The form
  ``exclusively owns ... its button list'' and its items, of which the modal reads the
  labels and the number; the frame holds the lines of text it is given and the rectangle
  it is assigned.
\<close>

record Button =
  buttonLabel :: string

record Form =
  buttons :: "Button list"
  formItems :: nat

definition GetFormItemCount :: "Form \<Rightarrow> int" where
  "GetFormItemCount f = int (formItems f)"

datatype Align = AlignLeft | AlignCenter | AlignRight

record Frame =
  frameBox :: Box
  frameText :: "(string \<times> bool \<times> Align) list"

definition Frame_Clear :: "Frame \<Rightarrow> Frame" where
  "Frame_Clear f = f\<lparr>frameText := []\<rparr>"

definition AddText :: "string \<Rightarrow> bool \<Rightarrow> Align \<Rightarrow> Frame \<Rightarrow> Frame" where
  "AddText line header align f = f\<lparr>frameText := frameText f @ [(line, header, align)]\<rparr>"

text \<open>The fields of the struct, without the colour and the done handler.\<close>

record Modal =
  modalBox :: Box
  frame :: Frame
  form :: Form
  modalText :: string

definition NewModal :: Modal where
  "NewModal =
     \<lparr>modalBox = NewBox,
      frame = \<lparr>frameBox = NewBox\<lparr>border := True, paddingTop := 1, paddingBottom := 1,
                                   paddingLeft := 1, paddingRight := 1\<rparr>,
               frameText = []\<rparr>,
      form = \<lparr>buttons = [], formItems = 0\<rparr>,
      modalText = []\<rparr>"

definition Modal_SetText :: "string \<Rightarrow> Modal \<Rightarrow> Modal" where
  "Modal_SetText t m = m\<lparr>modalText := t\<rparr>"

definition AddButtons :: "string list \<Rightarrow> Modal \<Rightarrow> Modal" where
  "AddButtons labels m =
     m\<lparr>form := (form m)\<lparr>buttons := buttons (form m) @ map (\<lambda>l. \<lparr>buttonLabel = l\<rparr>) labels\<rparr>\<rparr>"

text \<open>
  Draw, for a screen of the given size: the modal afterwards. Drawing the frame onto the
  screen changes nothing of the modal.
\<close>

definition Modal_Draw :: "TextUtil \<Rightarrow> int \<times> int \<Rightarrow> Modal \<Rightarrow> Modal" where
  "Modal_Draw u screenSize m =
     (let formItemCount = GetFormItemCount (form m);
          buttonsWidth0 = fold (\<lambda>button buttonsWidth.
                                  buttonsWidth + (TaggedStringWidth u (buttonLabel button) + 4 + 2))
                            (buttons (form m)) 0;
          buttonsWidth = buttonsWidth0 - 2;
          (screenWidth, screenHeight) = screenSize;
          width0 = quo screenWidth 3;
          width1 = (if width0 < buttonsWidth then buttonsWidth else width0);
          frame1 = Frame_Clear (frame m);
          lines = WordWrap u (modalText m) width1;
          frame2 = fold (\<lambda>line f. AddText line True AlignCenter f) lines frame1;
          height = int (length lines) + (formItemCount * 2) + 6;
          width = width1 + 4;
          x = quo (screenWidth - width) 2;
          y = quo (screenHeight - height) 2
      in m\<lparr>modalBox := SetRect x y width height (modalBox m),
           frame := frame2\<lparr>frameBox := SetRect x y width height (frameBox frame2)\<rparr>\<rparr>)"

text \<open>
  The width and the height of the window in words: the larger of a third of the screen
  width and the width of the row of buttons, plus 4; the number of wrapped lines of the
  message, plus 2 for each form item, plus 6.
\<close>

definition modalWidth :: "TextUtil \<Rightarrow> int \<Rightarrow> string list \<Rightarrow> int" where
  "modalWidth u screenWidth labels =
     max (quo screenWidth 3) ((\<Sum>l\<leftarrow>labels. TaggedStringWidth u l + 6) - 2) + 4"

definition modalHeight :: "TextUtil \<Rightarrow> int \<Rightarrow> string list \<Rightarrow> string \<Rightarrow> int \<Rightarrow> int" where
  "modalHeight u screenWidth labels msg formItemCount =
     int (length (WordWrap u msg (modalWidth u screenWidth labels - 4))) + formItemCount * 2 + 6"

section \<open>States and events of the properties\<close>

text \<open>The field NewInputField returns: every field has its zero value.\<close>

definition NewInputField :: InputField where
  "NewInputField =
     \<lparr>box = NewBox, text' = [], label = [], placeholder = [], fieldNote = [], labelWidth = 0, fieldWidth = 0,
      maskCharacter = 0, cursorPos = 0, autocomplete = None, autocompleteList = None,
      autocompleteListSuggestion = [], accept = None, changed = False, done' = False,
      finished = False, fieldX = 0, offset = 0, changedCalls = [], doneCalls = [],
      finishedCalls = []\<rparr>"

text \<open>The invariant of the cursor: a byte position inside the text or at its end.\<close>

definition cursorInRange :: "InputField \<Rightarrow> bool" where
  "cursorInRange i = (0 \<le> cursorPos i \<and> cursorPos i \<le> len (text' i))"

text \<open>
  The insert and delete keys: a rune, Backspace (either code), Delete, Ctrl-K, Ctrl-W
  and Ctrl-U.
\<close>

definition insertOrDelete :: "EventKey \<Rightarrow> bool" where
  "insertOrDelete event =
     (evKey event \<in> {KeyRune, KeyBackspace, KeyBackspace2, KeyDelete, KeyCtrlK, KeyCtrlW, KeyCtrlU})"

definition editKeys :: "EventKey list" where
  "editKeys =
     [\<lparr>evKey = KeyRune, evRune = 120, evModAlt = False\<rparr>,
      \<lparr>evKey = KeyBackspace, evRune = 0, evModAlt = False\<rparr>,
      \<lparr>evKey = KeyDelete, evRune = 0, evModAlt = False\<rparr>,
      \<lparr>evKey = KeyCtrlW, evRune = 0, evModAlt = False\<rparr>,
      \<lparr>evKey = KeyCtrlK, evRune = 0, evModAlt = False\<rparr>,
      \<lparr>evKey = KeyCtrlU, evRune = 0, evModAlt = False\<rparr>]"

text \<open>
  The candidates \<open>foo\<close> and \<open>foobar\<close>, and fields for them: one whose text is
  \<open>foo\<close>, one with the list open on \<open>foobar\<close>, one whose generator finds no
  candidate, one that rejects the letter x.
\<close>

definition fooEntries :: "ListItem list" where
  "fooEntries =
     [\<lparr>mainText = ''foo'', secondaryText = [], enabled = False\<rparr>,
      \<lparr>mainText = ''foobar'', secondaryText = [], enabled = False\<rparr>]"

definition fooField :: InputField where
  "fooField = NewInputField\<lparr>text' := ''foo'', cursorPos := 3, autocomplete := Some (\<lambda>t. fooEntries)\<rparr>"

definition openField :: InputField where
  "openField =
     NewInputField\<lparr>text' := ''f'', cursorPos := 1, autocomplete := Some (\<lambda>t. fooEntries),
       autocompleteList := Some (NewList\<lparr>items := fooEntries, currentItem := 1\<rparr>),
       autocompleteListSuggestion := ''obar'',
       changed := True, done' := True, finished := True\<rparr>"

definition keyEvent :: "Key \<Rightarrow> EventKey" where
  "keyEvent k = \<lparr>evKey = k, evRune = 0, evModAlt = False\<rparr>"

definition closedField :: InputField where
  "closedField =
     NewInputField\<lparr>text' := ''zz'', cursorPos := 2, autocomplete := Some (\<lambda>t. []),
       autocompleteList := Some (NewList\<lparr>items := fooEntries, currentItem := 0\<rparr>),
       autocompleteListSuggestion := ''x'', done' := True, finished := True\<rparr>"

definition guardedField :: InputField where
  "guardedField = NewInputField\<lparr>text' := ''ab'', cursorPos := 1, accept := Some (\<lambda>t r. r \<noteq> 120),
     changed := True\<rparr>"

definition runeEvent :: "rune \<Rightarrow> EventKey" where
  "runeEvent r = \<lparr>evKey = KeyRune, evRune = r, evModAlt = False\<rparr>"

text \<open>
  Text utilities that count bytes, and a field with a label, a two-byte rune in its text
  and a suggestion.
\<close>

definition plainUtil :: TextUtil where
  "plainUtil = \<lparr>graphemesOf = bytewise, stringWidth = len, Escape = (\<lambda>s. s), TaggedStringWidth = len,
     PrintWidth = (\<lambda>s w. min (len s) (max w 0)), WordWrap = (\<lambda>s w. [s])\<rparr>"



text \<open>
  Key bindings with Enter and the space bar for Select, a checkbox three rows high with
  a changed handler, and three events that toggle it.
\<close>

definition defaultKeys :: KeyBindings where
  "defaultKeys =
     \<lparr>Select = [\<lparr>evKey = KeyEnter, evRune = 0, evModAlt = False\<rparr>],
      Select2 = [\<lparr>evKey = KeyRune, evRune = 32, evModAlt = False\<rparr>],
      Cancel = [\<lparr>evKey = KeyEscape, evRune = 0, evModAlt = False\<rparr>],
      MovePreviousField = [\<lparr>evKey = KeyBacktab, evRune = 0, evModAlt = False\<rparr>],
      MoveNextField = [\<lparr>evKey = KeyTab, evRune = 0, evModAlt = False\<rparr>]\<rparr>"

definition watchedCheckBox :: CheckBox where
  "watchedCheckBox = NewCheckBox\<lparr>cbBox := SetRect 0 0 10 3 NewBox, cbChanged := True\<rparr>"

definition clicks :: "CheckBoxEvent list" where
  "clicks =
     [KeyEvent \<lparr>evKey = KeyEnter, evRune = 0, evModAlt = False\<rparr>,
      MouseEvent MouseLeftClick \<lparr>mouseX = 2, mouseY = 0\<rparr>,
      KeyEvent \<lparr>evKey = KeyRune, evRune = 32, evModAlt = False\<rparr>]"

text \<open>A modal with a message and two buttons.\<close>

definition quitModal :: Modal where
  "quitModal = AddButtons [''Yes'', ''No''] (Modal_SetText ''Quit?'' NewModal)"

section \<open>What the autocomplete functions leave alone\<close>

text \<open>
  The callback of the list, the list operations and Autocomplete write the autocomplete
  list and the suggestion and nothing else.
\<close>

lemma autocompleteChanged_frame:
  "(autocompleteChanged n item i)\<lparr>autocompleteList := L, autocompleteListSuggestion := S\<rparr>
     = i\<lparr>autocompleteList := L, autocompleteListSuggestion := S\<rparr>"
  by (simp add: autocompleteChanged_def)

lemma AddItem_frame:
  "(AddItem e i)\<lparr>autocompleteList := L, autocompleteListSuggestion := S\<rparr>
     = i\<lparr>autocompleteList := L, autocompleteListSuggestion := S\<rparr>"
  by (simp add: AddItem_def autocompleteChanged_def Let_def split: option.splits)

lemma SetCurrentItem_frame:
  "(SetCurrentItem n i)\<lparr>autocompleteList := L, autocompleteListSuggestion := S\<rparr>
     = i\<lparr>autocompleteList := L, autocompleteListSuggestion := S\<rparr>"
  by (simp add: SetCurrentItem_def autocompleteChanged_def Let_def split: option.splits)

lemma fillEntries_frame:
  "(snd (fillEntries es n c i))\<lparr>autocompleteList := L, autocompleteListSuggestion := S\<rparr>
     = i\<lparr>autocompleteList := L, autocompleteListSuggestion := S\<rparr>"
  by (induction es n c i rule: fillEntries.induct) (simp_all add: Let_def AddItem_frame)

lemma Autocomplete_frame:
  "(Autocomplete i)\<lparr>autocompleteList := L, autocompleteListSuggestion := S\<rparr>
     = i\<lparr>autocompleteList := L, autocompleteListSuggestion := S\<rparr>"
proof (cases "autocomplete i")
  case None
  then show ?thesis by (simp add: Autocomplete_def)
next
  case (Some gen)
  show ?thesis
  proof (cases "gen (text' i) = []")
    case True
    with Some show ?thesis by (simp add: Autocomplete_def)
  next
    case False
    define i2 where "i2 = (if autocompleteList i = None then i\<lparr>autocompleteList := Some NewList\<rparr> else i)
        \<lparr>autocompleteList := map_option Clear (autocompleteList (if autocompleteList i = None then i\<lparr>autocompleteList := Some NewList\<rparr> else i))\<rparr>"
    obtain c i3 where f: "fillEntries (gen (text' i)) 0 (-1) i2 = (c, i3)" by (cases "fillEntries (gen (text' i)) 0 (-1) i2")
    have i3: "i3\<lparr>autocompleteList := L, autocompleteListSuggestion := S\<rparr> = i2\<lparr>autocompleteList := L, autocompleteListSuggestion := S\<rparr>"
      using fillEntries_frame [where es = "gen (text' i)" and n = 0 and c = "-1" and i = i2] f by simp
    have i2: "i2\<lparr>autocompleteList := L, autocompleteListSuggestion := S\<rparr> = i\<lparr>autocompleteList := L, autocompleteListSuggestion := S\<rparr>"
      by (simp add: i2_def)
    have "Autocomplete i = (if c \<ge> 0 then SetCurrentItem c i3 else i3)"
      using Some False f by (simp add: Autocomplete_def Let_def i2_def)
    then show ?thesis using i3 i2 by (simp add: SetCurrentItem_frame)
  qed
qed

lemma frame_fields:
  fixes i j :: InputField
  assumes "j\<lparr>autocompleteList := None, autocompleteListSuggestion := []\<rparr>
     = i\<lparr>autocompleteList := None, autocompleteListSuggestion := []\<rparr>"
  shows "text' j = text' i" "cursorPos j = cursorPos i" "offset j = offset i"
    "changed j = changed i" "changedCalls j = changedCalls i" "doneCalls j = doneCalls i" "finishedCalls j = finishedCalls i"
    "done' j = done' i" "finished j = finished i" "accept j = accept i" "autocomplete j = autocomplete i" "maskCharacter j = maskCharacter i"
proof -
  let ?c = "\<lambda>x::InputField. x\<lparr>autocompleteList := None, autocompleteListSuggestion := []\<rparr>"
  have "text' (?c j) = text' (?c i)" "cursorPos (?c j) = cursorPos (?c i)" "offset (?c j) = offset (?c i)"
    "changed (?c j) = changed (?c i)" "changedCalls (?c j) = changedCalls (?c i)" "doneCalls (?c j) = doneCalls (?c i)"
    "finishedCalls (?c j) = finishedCalls (?c i)"
    "done' (?c j) = done' (?c i)" "finished (?c j) = finished (?c i)" "accept (?c j) = accept (?c i)" "autocomplete (?c j) = autocomplete (?c i)"
    "maskCharacter (?c j) = maskCharacter (?c i)"
    using assms by simp_all
  then show "text' j = text' i" "cursorPos j = cursorPos i" "offset j = offset i"
    "changed j = changed i" "changedCalls j = changedCalls i" "doneCalls j = doneCalls i" "finishedCalls j = finishedCalls i"
    "done' j = done' i" "finished j = finished i" "accept j = accept i" "autocomplete j = autocomplete i" "maskCharacter j = maskCharacter i"
    by simp_all
qed

section \<open>The cursor stays inside the text\<close>

lemma clustersFrom_bounds:
  "(p, n, a, b) \<in> set (clustersFrom gs tp sp) \<Longrightarrow>
     tp \<le> p \<and> 0 \<le> n \<and> p + n \<le> tp + int (sum_list (map fst gs))"
proof (induction gs arbitrary: tp sp)
  case Nil
  then show ?case by simp
next
  case (Cons x gs)
  obtain m w where x: "x = (m, w)" by (cases x)
  from Cons.prems x consider "(p, n, a, b) = (tp, int m, sp, w)"
    | "(p, n, a, b) \<in> set (clustersFrom gs (tp + int m) (sp + w))" by auto
  then show ?case
  proof cases
    case 1
    then show ?thesis using x by simp
  next
    case 2
    from Cons.IH [OF 2] show ?thesis using x by simp
  qed
qed

lemma iterateString_bounds:
  assumes "wf_graphemes g" "(p, n, a, b) \<in> set (iterateString g s)"
  shows "0 \<le> p \<and> 0 \<le> n \<and> p + n \<le> len s"
proof -
  have "sum_list (map fst (g s)) = length s" using assms(1) by (simp add: wf_graphemes_def)
  then show ?thesis
    using clustersFrom_bounds [of p n a b "g s" 0 0] assms(2) by (simp add: iterateString_def len_def)
qed

lemma iterateString_hd:
  assumes "wf_graphemes g" "iterateString g s = (p, n, a, b) # rest"
  shows "0 \<le> p \<and> 0 \<le> n \<and> p + n \<le> len s"
  using iterateString_bounds [OF assms(1), of p n a b s] assms(2) by simp

lemma iterateStringReverse_hd:
  assumes "wf_graphemes g" "iterateStringReverse g s = (p, n, a, b) # rest"
  shows "0 \<le> p \<and> 0 \<le> n \<and> p + n \<le> len s"
proof -
  have "(p, n, a, b) \<in> set (rev (iterateString g s))"
    using assms(2) by (simp add: iterateStringReverse_def)
  then show ?thesis using iterateString_bounds [OF assms(1), of p n a b s] by simp
qed

lemma len_regexRightWord: "len (regexRightWord s) \<le> len s"
proof -
  have "length (dropWhile wordChar (rev s)) \<le> length (rev s)" by (rule length_dropWhile_le)
  then show ?thesis by (simp add: regexRightWord_def len_def)
qed

lemma len_regexLeftWord: "len (regexLeftWord s) \<le> len s"
proof (cases s)
  case Nil
  then show ?thesis by (simp add: regexLeftWord_def)
next
  case (Cons c cs)
  have "length (dropWhile wordChar s) \<le> length s" by (rule length_dropWhile_le)
  moreover have "length (drop (runeSize s) s) \<le> length s" by simp
  moreover have "regexLeftWord s = (if \<not> wordChar c then drop (runeSize s) s else dropWhile wordChar s)"
    using Cons by (simp add: regexLeftWord_def del: runeSize.simps)
  ultimately show ?thesis by (simp add: len_def del: runeSize.simps)
qed

lemma len_nonneg: "0 \<le> len s" by (simp add: len_def)

lemma len_slice_to: "slice_ok s n \<Longrightarrow> len (slice_to s n) = n"
  by (auto simp: slice_ok_def slice_to_def len_def)

lemma len_slice_from: "slice_ok s n \<Longrightarrow> len (slice_from s n) = len s - n"
  by (auto simp: slice_ok_def slice_from_def len_def)

lemma len_append: "len (a @ b) = len a + len b"
  by (simp add: len_def)

lemma cursorInRange_slice: "cursorInRange i = slice_ok (text' i) (cursorPos i)"
  by (simp add: cursorInRange_def slice_ok_def)

lemma moveLeft_inv:
  assumes "wf_graphemes g" "cursorInRange i"
  shows "\<exists>j. moveLeft g i = Inr j \<and> cursorInRange j"
proof -
  have ok: "slice_ok (text' i) (cursorPos i)" using assms(2) by (simp add: cursorInRange_slice)
  show ?thesis
  proof (cases "iterateStringReverse g (slice_to (text' i) (cursorPos i))")
    case Nil
    then show ?thesis using ok assms(2) by (simp add: moveLeft_def)
  next
    case (Cons c rest)
    obtain p n a b where c: "c = (p, n, a, b)" by (cases c)
    have "0 \<le> p \<and> 0 \<le> n \<and> p + n \<le> cursorPos i"
      using iterateStringReverse_hd [OF assms(1) Cons [unfolded c]] len_slice_to [OF ok] by simp
    then show ?thesis using ok assms(2) Cons c by (simp add: moveLeft_def cursorInRange_def)
  qed
qed

lemma moveRight_inv:
  assumes "wf_graphemes g" "cursorInRange i"
  shows "\<exists>j. moveRight g i = Inr j \<and> cursorInRange j"
proof -
  have ok: "slice_ok (text' i) (cursorPos i)" using assms(2) by (simp add: cursorInRange_slice)
  show ?thesis
  proof (cases "iterateString g (slice_from (text' i) (cursorPos i))")
    case Nil
    then show ?thesis using ok assms(2) by (simp add: moveRight_def)
  next
    case (Cons c rest)
    obtain p n a b where c: "c = (p, n, a, b)" by (cases c)
    have "0 \<le> p \<and> 0 \<le> n \<and> p + n \<le> len (text' i) - cursorPos i"
      using iterateString_hd [OF assms(1) Cons [unfolded c]] len_slice_from [OF ok] by simp
    then show ?thesis using ok assms(2) Cons c by (simp add: moveRight_def cursorInRange_def)
  qed
qed

lemma moveWordLeft_inv:
  assumes "cursorInRange i"
  shows "\<exists>j. moveWordLeft i = Inr j \<and> cursorInRange j"
proof -
  have ok: "slice_ok (text' i) (cursorPos i)" using assms by (simp add: cursorInRange_slice)
  have "len (regexRightWord (slice_to (text' i) (cursorPos i))) \<le> cursorPos i"
    using len_regexRightWord [of "slice_to (text' i) (cursorPos i)"] len_slice_to [OF ok] by simp
  then show ?thesis using ok assms by (simp add: moveWordLeft_def cursorInRange_def len_nonneg)
qed

lemma moveWordRight_inv:
  assumes "cursorInRange i"
  shows "\<exists>j. moveWordRight i = Inr j \<and> cursorInRange j"
proof -
  have ok: "slice_ok (text' i) (cursorPos i)" using assms by (simp add: cursorInRange_slice)
  have "len (regexLeftWord (slice_from (text' i) (cursorPos i))) \<le> len (text' i) - cursorPos i"
    using len_regexLeftWord [of "slice_from (text' i) (cursorPos i)"] len_slice_from [OF ok] by simp
  moreover have "0 \<le> len (regexLeftWord (slice_from (text' i) (cursorPos i)))" by (rule len_nonneg)
  ultimately show ?thesis using ok assms by (simp add: moveWordRight_def cursorInRange_def)
qed

lemma add_inv:
  assumes "cursorInRange i"
  shows "\<exists>b j. add r i = Inr (b, j) \<and> cursorInRange j"
proof -
  have ok: "slice_ok (text' i) (cursorPos i)" using assms by (simp add: cursorInRange_slice)
  have "len (slice_to (text' i) (cursorPos i) @ string_of_rune r @ slice_from (text' i) (cursorPos i))
      = len (text' i) + len (string_of_rune r)"
    using len_slice_to [OF ok] len_slice_from [OF ok] by (simp add: len_append)
  then show ?thesis using ok assms len_nonneg [of "string_of_rune r"]
    by (auto simp: add_def cursorInRange_def Let_def)
qed

lemma addRune_inv:
  assumes "cursorInRange i"
  shows "\<exists>j. addRune r i = Inr j \<and> cursorInRange j"
  using add_inv [OF assms, of r] by (auto simp: addRune_def)

lemma deleteLastWord_inv:
  assumes "cursorInRange i"
  shows "\<exists>j. deleteLastWord i = Inr j \<and> cursorInRange j"
proof -
  have ok: "slice_ok (text' i) (cursorPos i)" using assms by (simp add: cursorInRange_slice)
  let ?w = "regexRightWord (slice_to (text' i) (cursorPos i))"
  have w: "len ?w \<le> cursorPos i" "0 \<le> len ?w"
    using len_regexRightWord [of "slice_to (text' i) (cursorPos i)"] len_slice_to [OF ok]
    by (simp_all add: len_nonneg)
  have "len (?w @ slice_from (text' i) (cursorPos i)) = len ?w + (len (text' i) - cursorPos i)"
    using len_slice_from [OF ok] by (simp add: len_append)
  then show ?thesis using ok assms w
    by (simp add: deleteLastWord_def cursorInRange_def Let_def)
qed

lemma deleteBefore_inv:
  assumes "wf_graphemes g" "cursorInRange i"
  shows "\<exists>j. deleteBefore g i = Inr j \<and> cursorInRange j"
proof -
  have ok: "slice_ok (text' i) (cursorPos i)" using assms(2) by (simp add: cursorInRange_slice)
  show ?thesis
  proof (cases "iterateStringReverse g (slice_to (text' i) (cursorPos i))")
    case Nil
    then show ?thesis using ok assms(2) by (simp add: deleteBefore_def cursorInRange_def)
  next
    case (Cons c rest)
    obtain p n a b where c: "c = (p, n, a, b)" by (cases c)
    have b: "0 \<le> p \<and> 0 \<le> n \<and> p + n \<le> cursorPos i"
      using iterateStringReverse_hd [OF assms(1) Cons [unfolded c]] len_slice_to [OF ok] by simp
    have ok1: "slice_ok (text' i) p" "slice_ok (text' i) (p + n)"
      using b ok by (simp_all add: slice_ok_def)
    have "len (slice_to (text' i) p @ slice_from (text' i) (p + n)) = len (text' i) - n"
      using len_slice_to [OF ok1(1)] len_slice_from [OF ok1(2)] by (simp add: len_append)
    then show ?thesis using ok ok1 assms(2) Cons c b
      by (simp add: deleteBefore_def cursorInRange_def)
  qed
qed

lemma deleteAfter_inv:
  assumes "wf_graphemes g" "cursorInRange i"
  shows "\<exists>j. deleteAfter g i = Inr j \<and> cursorInRange j"
proof -
  have ok: "slice_ok (text' i) (cursorPos i)" using assms(2) by (simp add: cursorInRange_slice)
  show ?thesis
  proof (cases "iterateString g (slice_from (text' i) (cursorPos i))")
    case Nil
    then show ?thesis using ok assms(2) by (simp add: deleteAfter_def)
  next
    case (Cons c rest)
    obtain p n a b where c: "c = (p, n, a, b)" by (cases c)
    have b: "0 \<le> p \<and> 0 \<le> n \<and> p + n \<le> len (text' i) - cursorPos i"
      using iterateString_hd [OF assms(1) Cons [unfolded c]] len_slice_from [OF ok] by simp
    have ok1: "slice_ok (text' i) (cursorPos i + n)"
      using b ok by (simp add: slice_ok_def)
    have "len (slice_to (text' i) (cursorPos i) @ slice_from (text' i) (cursorPos i + n)) = len (text' i) - n"
      using len_slice_to [OF ok] len_slice_from [OF ok1] by (simp add: len_append)
    then show ?thesis using ok ok1 assms(2) Cons c b
      by (simp add: deleteAfter_def cursorInRange_def)
  qed
qed

lemma triggerChanged_cursor:
  "text' (triggerChanged t i) = text' i \<and> cursorPos (triggerChanged t i) = cursorPos i"
  using frame_fields(1,2) [OF Autocomplete_frame [where i = i and L = None and S = "[]"]]
  by (simp add: triggerChanged_def Let_def)

lemma triggerChanged_inv: "cursorInRange i \<Longrightarrow> cursorInRange (triggerChanged t i)"
  using triggerChanged_cursor [of t i] by (simp add: cursorInRange_def)

lemma processKey_edit_inv:
  assumes "wf_graphemes g" "cursorInRange i" "insertOrDelete event"
  shows "\<exists>j. processKey g (evKey event) event i = Inr j \<and> cursorInRange j"
proof -
  have ok: "slice_ok (text' i) (cursorPos i)" using assms(2) by (simp add: cursorInRange_slice)
  from assms(3) consider "evKey event = KeyRune" | "evKey event = KeyBackspace"
    | "evKey event = KeyBackspace2" | "evKey event = KeyDelete" | "evKey event = KeyCtrlK"
    | "evKey event = KeyCtrlW" | "evKey event = KeyCtrlU"
    by (auto simp: insertOrDelete_def)
  then show ?thesis
  proof cases
    case 1
    then show ?thesis
      using addRune_inv [OF assms(2)] moveWordLeft_inv [OF assms(2)] moveWordRight_inv [OF assms(2)]
        assms(2)
      by (simp add: home_def end'_def cursorInRange_def len_nonneg)
  next
    case 2
    then show ?thesis using deleteBefore_inv [OF assms(1,2)] by simp
  next
    case 3
    then show ?thesis using deleteBefore_inv [OF assms(1,2)] by simp
  next
    case 4
    then show ?thesis using deleteAfter_inv [OF assms(1,2)] by simp
  next
    case 5
    then show ?thesis using ok len_slice_to [OF ok] by (simp add: cursorInRange_def slice_ok_def)
  next
    case 6
    then show ?thesis using deleteLastWord_inv [OF assms(2)] by simp
  next
    case 7
    then show ?thesis by (simp add: cursorInRange_def len_def)
  qed
qed

lemma InputHandler_eq:
  "InputHandler g event i =
     (case processKey g (evKey event) event i of
        Inl p \<Rightarrow> Inl p
      | Inr i1 \<Rightarrow> Inr (triggerChanged (text' i) i1))"
  by (simp add: InputHandler_def WrapInputHandler_def)

lemma InputHandler_edit_inv:
  assumes "wf_graphemes g" "cursorInRange i" "insertOrDelete event"
  shows "\<exists>j. InputHandler g event i = Inr j \<and> cursorInRange j"
proof -
  obtain j where j: "processKey g (evKey event) event i = Inr j" "cursorInRange j"
    using processKey_edit_inv [OF assms] by blast
  then show ?thesis by (simp add: InputHandler_eq triggerChanged_inv)
qed

lemma handleKeys_edit_inv:
  assumes "wf_graphemes g"
  shows "cursorInRange i \<Longrightarrow> \<forall>event \<in> set events. insertOrDelete event \<Longrightarrow>
     \<exists>j. handleKeys g events i = Inr j \<and> cursorInRange j"
proof (induction events arbitrary: i)
  case Nil
  then show ?case by simp
next
  case (Cons event events)
  obtain i1 where i1: "InputHandler g event i = Inr i1" "cursorInRange i1"
    using InputHandler_edit_inv [OF assms Cons.prems(1)] Cons.prems(2) by auto
  show ?case using Cons.IH [OF i1(2)] Cons.prems(2) i1(1) by simp
qed

text \<open>
  C4: from a field whose cursor is inside the text, every sequence of insert and delete
  key events is handled without a panic, and after each event of the sequence (after
  every prefix of it) \<open>0 \<le> cursorPos \<le> len(text)\<close> holds. The segmentation into
  grapheme clusters is any well-formed one.
\<close>

theorem cursor_bounds_invariant:
  assumes "wf_graphemes g" "cursorInRange i" "\<forall>event \<in> set events. insertOrDelete event"
    "n \<le> length events"
  shows "\<exists>j. handleKeys g (take n events) i = Inr j \<and> 0 \<le> cursorPos j \<and> cursorPos j \<le> len (text' j)"
proof -
  have "\<forall>event \<in> set (take n events). insertOrDelete event"
    using assms(3) by (meson in_set_takeD)
  from handleKeys_edit_inv [OF assms(1,2) this] show ?thesis by (simp add: cursorInRange_def)
qed

lemma wf_bytewise: "wf_graphemes bytewise"
proof -
  have "sum_list (map fst (map (\<lambda>c. (1::nat, 1::int)) s)) = length s" for s :: string
    by (induction s) simp_all
  then show ?thesis by (auto simp: wf_graphemes_def bytewise_def)
qed


theorem cursor_bounds_invariant_witness:
  "wf_graphemes bytewise
   \<and> cursorInRange (NewInputField\<lparr>text' := ''ab cd'', cursorPos := 4\<rparr>)
   \<and> list_all insertOrDelete editKeys
   \<and> (4::nat) \<le> length editKeys
   \<and> (\<exists>j. handleKeys bytewise (take 4 editKeys) (NewInputField\<lparr>text' := ''ab cd'', cursorPos := 4\<rparr>) = Inr j
         \<and> 0 \<le> cursorPos j \<and> cursorPos j \<le> len (text' j))"
proof -
  have a: "cursorInRange (NewInputField\<lparr>text' := ''ab cd'', cursorPos := 4\<rparr>)"
    by (simp add: cursorInRange_def NewInputField_def len_def)
  have b: "\<forall>event \<in> set editKeys. insertOrDelete event"
    by (simp add: editKeys_def insertOrDelete_def)
  have c: "(4::nat) \<le> length editKeys" by (simp add: editKeys_def)
  from cursor_bounds_invariant [OF wf_bytewise a b c] a b c wf_bytewise
  show ?thesis by (simp add: list_all_iff)
qed

section \<open>SetText\<close>

text \<open>
  C10: for every string \<open>t\<close> and every field, SetText(t) makes \<open>t\<close> the text, puts the
  cursor at \<open>len(t)\<close>, the end of the new text, and calls the changed handler with
  \<open>t\<close> whenever one is installed; whether \<open>t\<close> is the text the field already had
  plays no part.
\<close>

theorem SetText_result:
  "text' (SetText t i) = t \<and> cursorPos (SetText t i) = len t
   \<and> changedCalls (SetText t i) = (if changed i then changedCalls i @ [t] else changedCalls i)"
  by (simp add: SetText_def Let_def)

theorem SetText_result_witness:
  "text' (SetText ''abc'' (NewInputField\<lparr>text' := ''abc'', cursorPos := 1, changed := True\<rparr>)) = ''abc''
   \<and> cursorPos (SetText ''abc'' (NewInputField\<lparr>text' := ''abc'', cursorPos := 1, changed := True\<rparr>)) = 3
   \<and> changedCalls (SetText ''abc'' (NewInputField\<lparr>text' := ''abc'', cursorPos := 1, changed := True\<rparr>)) = [''abc'']"
  using SetText_result [of "''abc''" "NewInputField\<lparr>text' := ''abc'', cursorPos := 1, changed := True\<rparr>"]
  by (simp add: NewInputField_def len_def)

section \<open>Closing the autocomplete list\<close>

lemma triggerChanged_same: "text' j = t \<Longrightarrow> triggerChanged t j = j"
  by (simp add: triggerChanged_def)

lemma escape_closes_list:
  assumes "evKey event = KeyEscape" "autocompleteList i = Some l"
  shows "InputHandler g event i = Inr (i\<lparr>autocompleteList := None, autocompleteListSuggestion := []\<rparr>)"
  using assms by (simp add: InputHandler_eq triggerChanged_same)

lemma Autocomplete_no_entries:
  assumes "autocomplete i = Some generator" "generator (text' i) = []"
  shows "Autocomplete i = i\<lparr>autocompleteList := None, autocompleteListSuggestion := []\<rparr>"
  using assms by (simp add: Autocomplete_def)

text \<open>
  C8: Escape on a field whose autocomplete list is open, and Autocomplete() with a
  generator that returns no candidate, set the list to nil and the suggestion to the
  empty string and leave the text and the cursor as they were; the Escape case calls
  neither the done nor the finished handler.
\<close>

theorem closing_keeps_text:
  "(evKey event = KeyEscape \<and> autocompleteList i \<noteq> None \<longrightarrow>
      (\<exists>j. InputHandler g event i = Inr j \<and> autocompleteList j = None
         \<and> autocompleteListSuggestion j = [] \<and> text' j = text' i \<and> cursorPos j = cursorPos i
         \<and> doneCalls j = doneCalls i \<and> finishedCalls j = finishedCalls i
         \<and> j = i\<lparr>autocompleteList := None, autocompleteListSuggestion := []\<rparr>))
   \<and> (autocomplete i = Some generator \<and> generator (text' i) = [] \<longrightarrow>
        autocompleteList (Autocomplete i) = None \<and> autocompleteListSuggestion (Autocomplete i) = []
        \<and> text' (Autocomplete i) = text' i \<and> cursorPos (Autocomplete i) = cursorPos i
        \<and> Autocomplete i = i\<lparr>autocompleteList := None, autocompleteListSuggestion := []\<rparr>)"
proof (intro conjI impI)
  assume a: "evKey event = KeyEscape \<and> autocompleteList i \<noteq> None"
  then obtain l where "autocompleteList i = Some l" by auto
  with a have "InputHandler g event i = Inr (i\<lparr>autocompleteList := None, autocompleteListSuggestion := []\<rparr>)"
    using escape_closes_list by blast
  then show "\<exists>j. InputHandler g event i = Inr j \<and> autocompleteList j = None
         \<and> autocompleteListSuggestion j = [] \<and> text' j = text' i \<and> cursorPos j = cursorPos i
         \<and> doneCalls j = doneCalls i \<and> finishedCalls j = finishedCalls i
         \<and> j = i\<lparr>autocompleteList := None, autocompleteListSuggestion := []\<rparr>" by simp
next
  assume "autocomplete i = Some generator \<and> generator (text' i) = []"
  then have e: "Autocomplete i = i\<lparr>autocompleteList := None, autocompleteListSuggestion := []\<rparr>"
    using Autocomplete_no_entries by blast
  show "autocompleteList (Autocomplete i) = None" "autocompleteListSuggestion (Autocomplete i) = []"
    "text' (Autocomplete i) = text' i" "cursorPos (Autocomplete i) = cursorPos i"
    "Autocomplete i = i\<lparr>autocompleteList := None, autocompleteListSuggestion := []\<rparr>"
    by (simp_all add: e)
qed

theorem closing_keeps_text_witness:
  "(\<exists>j. InputHandler bytewise (keyEvent KeyEscape) openField = Inr j \<and> autocompleteList j = None
       \<and> autocompleteListSuggestion j = [] \<and> text' j = ''f'' \<and> cursorPos j = 1
       \<and> doneCalls j = [] \<and> finishedCalls j = [])
   \<and> autocompleteList (Autocomplete closedField) = None
   \<and> autocompleteListSuggestion (Autocomplete closedField) = []
   \<and> text' (Autocomplete closedField) = ''zz'' \<and> cursorPos (Autocomplete closedField) = 2"
  using closing_keeps_text [where event = "keyEvent KeyEscape" and i = openField and g = bytewise]
    closing_keeps_text [where i = closedField and generator = "\<lambda>t. []"]
  by (simp add: keyEvent_def openField_def closedField_def NewInputField_def)

section \<open>Entering a rune\<close>

text \<open>
  C5: a rune is entered into a field whose cursor is inside the text (a rune key that is
  not one of the Alt shortcuts a, e, b, f, which move the cursor). When an acceptance
  function is installed and rejects the text that would result, the handler returns the
  field unchanged, so no field differs and no changed call is recorded. When there is no
  acceptance function or it accepts, the UTF-8 bytes of the rune are spliced into the text
  at the cursor and the cursor advances by their number.
\<close>

theorem rune_entry:
  assumes "cursorInRange i" "evKey event = KeyRune"
    "\<not> (evModAlt event \<and> evRune event \<in> {97, 101, 98, 102})"
  shows "let r = evRune event;
             newText = slice_to (text' i) (cursorPos i) @ string_of_rune r @ slice_from (text' i) (cursorPos i)
         in ((case accept i of None \<Rightarrow> False | Some a \<Rightarrow> \<not> a newText r) \<longrightarrow> InputHandler g event i = Inr i)
          \<and> ((case accept i of None \<Rightarrow> True | Some a \<Rightarrow> a newText r) \<longrightarrow>
               (\<exists>j. InputHandler g event i = Inr j \<and> text' j = newText
                   \<and> cursorPos j = cursorPos i + len (string_of_rune r)))"
proof -
  define r where "r = evRune event"
  define newText where "newText = slice_to (text' i) (cursorPos i) @ string_of_rune r @ slice_from (text' i) (cursorPos i)"
  have ok: "slice_ok (text' i) (cursorPos i)" using assms(1) by (simp add: cursorInRange_slice)
  have pk: "processKey g (evKey event) event i = addRune r i"
    using assms(2,3) by (auto simp: r_def)
  have rej: "InputHandler g event i = Inr i" if "case accept i of None \<Rightarrow> False | Some a \<Rightarrow> \<not> a newText r"
  proof -
    have "add r i = Inr (False, i)" using that ok unfolding newText_def by (simp add: add_def Let_def)
    then show ?thesis by (simp add: InputHandler_eq pk addRune_def triggerChanged_same)
  qed
  have acc: "\<exists>j. InputHandler g event i = Inr j \<and> text' j = newText
                   \<and> cursorPos j = cursorPos i + len (string_of_rune r)"
    if "case accept i of None \<Rightarrow> True | Some a \<Rightarrow> a newText r"
  proof -
    have "\<not> (case accept i of None \<Rightarrow> False | Some a \<Rightarrow> \<not> a newText r)"
      using that by (cases "accept i") simp_all
    then have "add r i = Inr (True, i\<lparr>text' := newText, cursorPos := cursorPos i + len (string_of_rune r)\<rparr>)"
      using ok unfolding newText_def by (simp add: add_def Let_def)
    then have "InputHandler g event i
        = Inr (triggerChanged (text' i) (i\<lparr>text' := newText, cursorPos := cursorPos i + len (string_of_rune r)\<rparr>))"
      by (simp add: InputHandler_eq pk addRune_def)
    then show ?thesis using triggerChanged_cursor by simp
  qed
  show ?thesis using rej acc unfolding Let_def r_def newText_def by blast
qed


theorem rune_entry_witness:
  "cursorInRange guardedField
   \<and> InputHandler bytewise (runeEvent 120) guardedField = Inr guardedField
   \<and> (\<exists>j. InputHandler bytewise (runeEvent 121) guardedField = Inr j \<and> text' j = ''ayb''
        \<and> cursorPos j = 2)"
  using rune_entry [where event = "runeEvent 120" and i = guardedField and g = bytewise]
    rune_entry [where event = "runeEvent 121" and i = guardedField and g = bytewise]
  by (simp add: cursorInRange_def guardedField_def runeEvent_def NewInputField_def len_def
      slice_to_def slice_from_def string_of_rune_def byte_def char_of_def Let_def)


section \<open>Moving through the autocomplete list\<close>

lemma frame_fields_Autocomplete:
  "text' (Autocomplete i) = text' i" "cursorPos (Autocomplete i) = cursorPos i"
  "changed (Autocomplete i) = changed i" "changedCalls (Autocomplete i) = changedCalls i"
  "doneCalls (Autocomplete i) = doneCalls i" "finishedCalls (Autocomplete i) = finishedCalls i"
  using frame_fields [OF Autocomplete_frame [where i = i and L = None and S = "[]"]] by simp_all

lemma frame_fields_SetCurrentItem:
  "text' (SetCurrentItem n i) = text' i" "cursorPos (SetCurrentItem n i) = cursorPos i"
  "doneCalls (SetCurrentItem n i) = doneCalls i" "finishedCalls (SetCurrentItem n i) = finishedCalls i"
  using frame_fields [OF SetCurrentItem_frame [where i = i and n = n and L = None and S = "[]"]] by simp_all

lemma autocompleteChanged_list:
  "autocompleteList (autocompleteChanged n item i) = autocompleteList i"
  by (simp add: autocompleteChanged_def)

lemma SetCurrentItem_list:
  assumes "autocompleteList i = Some l" "0 \<le> n" "n < GetItemCount l"
  shows "autocompleteList (SetCurrentItem n i) = Some (l\<lparr>currentItem := n\<rparr>)"
proof (cases "n = currentItem l")
  case True
  then show ?thesis using assms by (simp add: SetCurrentItem_def)
next
  case False
  then show ?thesis using assms by (simp add: SetCurrentItem_def autocompleteChanged_list)
qed

lemma nextEntry_list:
  assumes "autocompleteList i = Some l" "0 \<le> currentItem l" "currentItem l < GetItemCount l"
  shows "autocompleteList (nextEntry l i)
     = Some (l\<lparr>currentItem := (if currentItem l + 1 = GetItemCount l then 0 else currentItem l + 1)\<rparr>)"
proof (cases "currentItem l + 1 = GetItemCount l")
  case True
  then have "nextEntry l i = SetCurrentItem 0 i"
    by (simp add: nextEntry_def GetCurrentItemIndex_def Let_def)
  then show ?thesis using True SetCurrentItem_list [OF assms(1), of 0] assms(2,3) by simp
next
  case False
  then have "nextEntry l i = SetCurrentItem (currentItem l + 1) i"
    using assms(3) by (simp add: nextEntry_def GetCurrentItemIndex_def Let_def)
  then show ?thesis using False SetCurrentItem_list [OF assms(1), of "currentItem l + 1"] assms(2,3) by simp
qed

lemma previousEntry_list:
  assumes "autocompleteList i = Some l" "0 \<le> currentItem l" "currentItem l < GetItemCount l"
  shows "autocompleteList (previousEntry l i)
     = Some (l\<lparr>currentItem := (if currentItem l = 0 then GetItemCount l - 1 else currentItem l - 1)\<rparr>)"
proof (cases "currentItem l = 0")
  case True
  then have "previousEntry l i = SetCurrentItem (GetItemCount l - 1) i"
    by (simp add: previousEntry_def GetCurrentItemIndex_def Let_def)
  then show ?thesis using True SetCurrentItem_list [OF assms(1), of "GetItemCount l - 1"] assms(2,3) by simp
next
  case False
  then have "previousEntry l i = SetCurrentItem (currentItem l - 1) i"
    using assms(2) by (simp add: previousEntry_def GetCurrentItemIndex_def Let_def)
  then show ?thesis using False SetCurrentItem_list [OF assms(1), of "currentItem l - 1"] assms(2,3) by simp
qed

lemma nextEntry_frame:
  "text' (nextEntry l i) = text' i" "doneCalls (nextEntry l i) = doneCalls i"
  "finishedCalls (nextEntry l i) = finishedCalls i"
  by (simp_all add: nextEntry_def Let_def frame_fields_SetCurrentItem)

lemma previousEntry_frame:
  "text' (previousEntry l i) = text' i" "doneCalls (previousEntry l i) = doneCalls i"
  "finishedCalls (previousEntry l i) = finishedCalls i"
  by (simp_all add: previousEntry_def Let_def frame_fields_SetCurrentItem)

lemma finish_frame:
  "text' (finish k i) = text' i"
  "doneCalls (finish k i) = (if done' i then doneCalls i @ [k] else doneCalls i)"
  "finishedCalls (finish k i) = (if finished i then finishedCalls i @ [k] else finishedCalls i)"
  by (simp_all add: finish_def Let_def)

lemma key_next:
  assumes "autocompleteList i = Some l" "evKey event \<in> {KeyDown, KeyTab}"
  shows "InputHandler g event i = Inr (nextEntry l i)"
  using assms by (auto simp: InputHandler_eq triggerChanged_same nextEntry_frame)

lemma key_previous:
  assumes "autocompleteList i = Some l" "evKey event \<in> {KeyUp, KeyBacktab}"
  shows "InputHandler g event i = Inr (previousEntry l i)"
  using assms by (auto simp: InputHandler_eq triggerChanged_same previousEntry_frame)

lemma key_leave:
  assumes "autocompleteList i = None" "evKey event \<in> {KeyDown, KeyTab, KeyUp, KeyBacktab}"
  shows "InputHandler g event i = Inr (finish (evKey event) i)"
  using assms by (auto simp: InputHandler_eq triggerChanged_same finish_frame)

text \<open>
  C7: while the autocomplete list is open (its highlighted index inside the list), Down
  and Tab move the highlight one entry on, from the last entry to the first, Up and
  Backtab move it one entry back, from the first entry to the last, and neither the done
  nor the finished handler is called. With no list open each of the four keys calls the
  done handler and the finished handler, where installed, with the key.
\<close>

theorem list_navigation:
  "(autocompleteList i = Some l \<and> 0 \<le> currentItem l \<and> currentItem l < GetItemCount l
      \<and> evKey event \<in> {KeyDown, KeyTab} \<longrightarrow>
      (\<exists>j. InputHandler g event i = Inr j
         \<and> autocompleteList j = Some (l\<lparr>currentItem :=
               (if currentItem l + 1 = GetItemCount l then 0 else currentItem l + 1)\<rparr>)
         \<and> doneCalls j = doneCalls i \<and> finishedCalls j = finishedCalls i))
   \<and> (autocompleteList i = Some l \<and> 0 \<le> currentItem l \<and> currentItem l < GetItemCount l
      \<and> evKey event \<in> {KeyUp, KeyBacktab} \<longrightarrow>
      (\<exists>j. InputHandler g event i = Inr j
         \<and> autocompleteList j = Some (l\<lparr>currentItem :=
               (if currentItem l = 0 then GetItemCount l - 1 else currentItem l - 1)\<rparr>)
         \<and> doneCalls j = doneCalls i \<and> finishedCalls j = finishedCalls i))
   \<and> (autocompleteList i = None \<and> evKey event \<in> {KeyDown, KeyTab, KeyUp, KeyBacktab} \<longrightarrow>
      (\<exists>j. InputHandler g event i = Inr j
         \<and> doneCalls j = (if done' i then doneCalls i @ [evKey event] else doneCalls i)
         \<and> finishedCalls j = (if finished i then finishedCalls i @ [evKey event]
                               else finishedCalls i)))"
proof (intro conjI impI)
  assume a: "autocompleteList i = Some l \<and> 0 \<le> currentItem l \<and> currentItem l < GetItemCount l
      \<and> evKey event \<in> {KeyDown, KeyTab}"
  then have "InputHandler g event i = Inr (nextEntry l i)" using key_next by blast
  then show "\<exists>j. InputHandler g event i = Inr j
         \<and> autocompleteList j = Some (l\<lparr>currentItem :=
               (if currentItem l + 1 = GetItemCount l then 0 else currentItem l + 1)\<rparr>)
         \<and> doneCalls j = doneCalls i \<and> finishedCalls j = finishedCalls i"
    using a nextEntry_list [of i l] by (simp add: nextEntry_frame)
next
  assume a: "autocompleteList i = Some l \<and> 0 \<le> currentItem l \<and> currentItem l < GetItemCount l
      \<and> evKey event \<in> {KeyUp, KeyBacktab}"
  then have "InputHandler g event i = Inr (previousEntry l i)" using key_previous by blast
  then show "\<exists>j. InputHandler g event i = Inr j
         \<and> autocompleteList j = Some (l\<lparr>currentItem :=
               (if currentItem l = 0 then GetItemCount l - 1 else currentItem l - 1)\<rparr>)
         \<and> doneCalls j = doneCalls i \<and> finishedCalls j = finishedCalls i"
    using a previousEntry_list [of i l] by (simp add: previousEntry_frame)
next
  assume a: "autocompleteList i = None \<and> evKey event \<in> {KeyDown, KeyTab, KeyUp, KeyBacktab}"
  then have "InputHandler g event i = Inr (finish (evKey event) i)" using key_leave by blast
  then show "\<exists>j. InputHandler g event i = Inr j
         \<and> doneCalls j = (if done' i then doneCalls i @ [evKey event] else doneCalls i)
         \<and> finishedCalls j = (if finished i then finishedCalls i @ [evKey event]
                               else finishedCalls i)"
    by (simp add: finish_frame)
qed


theorem list_navigation_witness:
  "(\<exists>j. InputHandler bytewise (keyEvent KeyDown) openField = Inr j
       \<and> autocompleteList j = Some (NewList\<lparr>items := fooEntries, currentItem := 0\<rparr>) \<and> doneCalls j = []
       \<and> finishedCalls j = [])
   \<and> (\<exists>j. InputHandler bytewise (keyEvent KeyBacktab) (openField\<lparr>autocompleteList := Some (NewList\<lparr>items := fooEntries, currentItem := 0\<rparr>)\<rparr>) = Inr j
       \<and> autocompleteList j = Some (NewList\<lparr>items := fooEntries, currentItem := 1\<rparr>) \<and> doneCalls j = []
       \<and> finishedCalls j = [])
   \<and> (\<exists>j. InputHandler bytewise (keyEvent KeyTab) (NewInputField\<lparr>done' := True, finished := True\<rparr>) = Inr j
       \<and> doneCalls j = [KeyTab] \<and> finishedCalls j = [KeyTab])"
  using list_navigation [where event = "keyEvent KeyDown" and i = openField and g = bytewise
      and l = "(NewList\<lparr>items := fooEntries, currentItem := 1\<rparr>)"]
    list_navigation [where event = "keyEvent KeyBacktab"
      and i = "openField\<lparr>autocompleteList := Some (NewList\<lparr>items := fooEntries, currentItem := 0\<rparr>)\<rparr>"
      and g = bytewise and l = "(NewList\<lparr>items := fooEntries, currentItem := 0\<rparr>)"]
    list_navigation [where event = "keyEvent KeyTab"
      and i = "NewInputField\<lparr>done' := True, finished := True\<rparr>" and g = bytewise]
  by (simp add: keyEvent_def openField_def NewInputField_def GetItemCount_def fooEntries_def)

section \<open>Accepting a candidate with Enter\<close>

lemma AddItem_open: "autocompleteList i \<noteq> None \<Longrightarrow> autocompleteList (AddItem e i) \<noteq> None"
  by (auto simp: AddItem_def Let_def autocompleteChanged_list)

lemma fillEntries_open:
  "autocompleteList i \<noteq> None \<Longrightarrow> autocompleteList (snd (fillEntries es n c i)) \<noteq> None"
  by (induction es n c i rule: fillEntries.induct) (simp_all add: Let_def AddItem_open)

lemma SetCurrentItem_open:
  "autocompleteList i \<noteq> None \<Longrightarrow> autocompleteList (SetCurrentItem n i) \<noteq> None"
  by (auto simp: SetCurrentItem_def autocompleteChanged_list)

lemma Autocomplete_opens:
  assumes "autocomplete i = Some generator" "generator (text' i) \<noteq> []"
  shows "autocompleteList (Autocomplete i) \<noteq> None"
proof -
  define i2 where "i2 = (if autocompleteList i = None then i\<lparr>autocompleteList := Some NewList\<rparr> else i)
        \<lparr>autocompleteList := map_option Clear (autocompleteList (if autocompleteList i = None then i\<lparr>autocompleteList := Some NewList\<rparr> else i))\<rparr>"
  have o2: "autocompleteList i2 \<noteq> None" by (simp add: i2_def)
  obtain c i3 where f: "fillEntries (generator (text' i)) 0 (-1) i2 = (c, i3)"
    by (cases "fillEntries (generator (text' i)) 0 (-1) i2")
  have o3: "autocompleteList i3 \<noteq> None"
    using fillEntries_open [OF o2, of "generator (text' i)" 0 "-1"] f by simp
  have "Autocomplete i = (if c \<ge> 0 then SetCurrentItem c i3 else i3)"
    using assms f by (simp add: Autocomplete_def Let_def i2_def)
  then show ?thesis using o3 SetCurrentItem_open [OF o3] by simp
qed

lemma SetText_frame:
  "text' (SetText t i) = t" "cursorPos (SetText t i) = len t"
  "doneCalls (SetText t i) = doneCalls i" "finishedCalls (SetText t i) = finishedCalls i"
  "autocomplete (SetText t i) = autocomplete i"
  by (simp_all add: SetText_def Let_def)

text \<open>
  What the handler returns for Enter on an open list, for every field: the text is the
  highlighted candidate's secondary text if that is non-empty and its main text
  otherwise, the cursor is at its end, and neither the done nor the finished handler is
  called. The Enter case clears the list and the suggestion; the deferred function then
  runs Autocomplete() when the text has changed, and the list is nil on return exactly
  when that run finds no candidate.
\<close>

lemma enter_on_open_list:
  assumes "evKey event = KeyEnter" "autocompleteList i = Some l" "GetCurrentItem l = Some item"
  shows "let selectionText = (if secondaryText item \<noteq> [] then secondaryText item else mainText item)
         in \<exists>j. InputHandler g event i = Inr j \<and> text' j = selectionText
              \<and> cursorPos j = len selectionText
              \<and> doneCalls j = doneCalls i \<and> finishedCalls j = finishedCalls i
              \<and> (if selectionText \<noteq> text' i
                     \<and> (case autocomplete i of None \<Rightarrow> False
                         | Some generator \<Rightarrow> generator selectionText \<noteq> [])
                  then autocompleteList j \<noteq> None
                  else autocompleteList j = None \<and> autocompleteListSuggestion j = [])"
proof -
  define sel where "sel = (if secondaryText item \<noteq> [] then secondaryText item else mainText item)"
  define i1 where "i1 = (SetText sel i)\<lparr>autocompleteList := None, autocompleteListSuggestion := []\<rparr>"
  have i1: "text' i1 = sel" "cursorPos i1 = len sel" "doneCalls i1 = doneCalls i"
    "finishedCalls i1 = finishedCalls i" "autocomplete i1 = autocomplete i"
    "autocompleteList i1 = None" "autocompleteListSuggestion i1 = []"
    by (simp_all add: i1_def SetText_frame)
  have "processKey g (evKey event) event i = Inr i1"
    using assms by (simp add: acceptEntry_def i1_def sel_def Let_def)
  then have h: "InputHandler g event i = Inr (triggerChanged (text' i) i1)"
    by (simp add: InputHandler_eq)
  let ?j = "triggerChanged (text' i) i1"
  have t: "text' ?j = sel" "cursorPos ?j = len sel"
    using triggerChanged_cursor [of "text' i" i1] i1 by simp_all
  have d: "doneCalls ?j = doneCalls i" "finishedCalls ?j = finishedCalls i"
    using i1 by (simp_all add: triggerChanged_def Let_def frame_fields_Autocomplete)
  have l: "if sel \<noteq> text' i \<and> (case autocomplete i of None \<Rightarrow> False | Some generator \<Rightarrow> generator sel \<noteq> [])
       then autocompleteList ?j \<noteq> None
       else autocompleteList ?j = None \<and> autocompleteListSuggestion ?j = []"
  proof (cases "sel = text' i")
    case True
    then have "?j = i1" using i1 by (simp add: triggerChanged_same)
    then show ?thesis using True i1 by simp
  next
    case False
    show ?thesis
    proof (cases "autocomplete i")
      case None
      then have "Autocomplete i1 = i1" using i1 by (simp add: Autocomplete_def)
      then show ?thesis using None False i1 by (simp add: triggerChanged_def Let_def)
    next
      case (Some generator)
      show ?thesis
      proof (cases "generator sel = []")
        case True
        then have "Autocomplete i1 = i1\<lparr>autocompleteList := None, autocompleteListSuggestion := []\<rparr>"
          using Autocomplete_no_entries [of i1 generator] Some i1 by simp
        then show ?thesis using Some True False i1 by (simp add: triggerChanged_def Let_def)
      next
        case n: False
        then have "autocompleteList (Autocomplete i1) \<noteq> None"
          using Autocomplete_opens [of i1 generator] Some i1 by simp
        then show ?thesis using Some n False i1 by (simp add: triggerChanged_def Let_def)
      qed
    qed
  qed
  show ?thesis unfolding Let_def sel_def [symmetric] using h t d l by simp
qed

text \<open>
  C6: Enter on a field whose autocomplete list is open replaces the text by the
  highlighted candidate and calls neither the done nor the finished handler, and the
  list and the suggestion are to be cleared, as the documentation of SetAutocompleteFunc
  has it (``Entries are cleared when the user selects an entry or presses Escape''). The
  code misses the last part: for the field with the text \<open>f\<close>, the candidate
  \<open>foobar\<close> highlighted and a generator that proposes \<open>foo\<close> and \<open>foobar\<close>
  for every text, the handler returns with the text \<open>foobar\<close>, the cursor at 6, no
  done and no finished call, the changed handler called twice, and the list open again
  on \<open>foobar\<close>. The Enter case sets the list to nil after SetText, and the deferred
  function, which still compares with the text from before the key, runs Autocomplete()
  and the changed handler once more.
\<close>

theorem enter_reopens_list:
  "map_sum id
     (\<lambda>j. (text' j, cursorPos j, autocompleteList j, autocompleteListSuggestion j,
           changedCalls j, doneCalls j, finishedCalls j))
     (InputHandler bytewise (keyEvent KeyEnter) openField)
   = Inr (''foobar'', 6,
          Some (NewList\<lparr>items := [\<lparr>mainText = ''foo'', secondaryText = [], enabled = True\<rparr>,
                                   \<lparr>mainText = ''foobar'', secondaryText = [], enabled = True\<rparr>],
                         currentItem := 1\<rparr>),
          [], [''foobar'', ''foobar''], [], [])"
  by (simp add: InputHandler_eq keyEvent_def openField_def NewInputField_def fooEntries_def
      acceptEntry_def GetCurrentItem_def GetItemCount_def SetText_def triggerChanged_def
      Autocomplete_def Clear_def AddItem_def SetCurrentItem_def autocompleteChanged_def
      len_def slice_from_def Let_def)

section \<open>The suggestion\<close>

text \<open>
  C1, as the code has it: with the text \<open>foo\<close> and a generator returning the
  candidates \<open>foo\<close> and \<open>foobar\<close>, Autocomplete() highlights the candidate that
  is the text, \<open>foo\<close>, and the callback for the highlighted candidate stores the
  empty suggestion. A candidate whose secondary text is \<open>foobar\<close> gives the
  suggestion \<open>bar\<close>.
\<close>

theorem suggestion_for_exact_match:
  assumes "text' i = ''foo''" "autocomplete i = Some generator" "generator ''foo'' = [a, b]"
    "mainText a = ''foo''" "secondaryText a = []" "mainText b = ''foobar''" "secondaryText b = []"
  shows "(\<exists>l item. autocompleteList (Autocomplete i) = Some l \<and> GetCurrentItemIndex l = 0
           \<and> GetCurrentItem l = Some item \<and> mainText item = ''foo''
           \<and> autocompleteListSuggestion (Autocomplete i) = []
           \<and> autocompleteListSuggestion
                (autocompleteChanged (GetCurrentItemIndex l) item (Autocomplete i)) = [])
       \<and> (\<forall>n item. secondaryText item = ''foobar'' \<longrightarrow>
             autocompleteListSuggestion (autocompleteChanged n item (Autocomplete i)) = ''bar'')"
proof
  show "\<exists>l item. autocompleteList (Autocomplete i) = Some l \<and> GetCurrentItemIndex l = 0
           \<and> GetCurrentItem l = Some item \<and> mainText item = ''foo''
           \<and> autocompleteListSuggestion (Autocomplete i) = []
           \<and> autocompleteListSuggestion
                (autocompleteChanged (GetCurrentItemIndex l) item (Autocomplete i)) = []"
    using assms
    by (cases "autocompleteList i")
      (simp_all add: Autocomplete_def NewList_def Clear_def AddItem_def SetCurrentItem_def
        autocompleteChanged_def GetCurrentItem_def GetCurrentItemIndex_def GetItemCount_def
        len_def slice_from_def Let_def)
  show "\<forall>n item. secondaryText item = ''foobar'' \<longrightarrow>
          autocompleteListSuggestion (autocompleteChanged n item (Autocomplete i)) = ''bar''"
    using assms(1)
    by (simp add: autocompleteChanged_def frame_fields_Autocomplete len_def slice_from_def)
qed

theorem suggestion_for_exact_match_witness:
  "(\<exists>l item. autocompleteList (Autocomplete fooField) = Some l \<and> GetCurrentItemIndex l = 0
           \<and> GetCurrentItem l = Some item \<and> mainText item = ''foo''
           \<and> autocompleteListSuggestion (Autocomplete fooField) = []
           \<and> autocompleteListSuggestion
                (autocompleteChanged (GetCurrentItemIndex l) item (Autocomplete fooField)) = [])
   \<and> autocompleteListSuggestion
        (autocompleteChanged 1 \<lparr>mainText = ''foobar'', secondaryText = ''foobar'', enabled = True\<rparr>
           (Autocomplete fooField)) = ''bar''"
  using suggestion_for_exact_match [where i = fooField and generator = "\<lambda>t. fooEntries"
      and a = "fooEntries ! 0" and b = "fooEntries ! 1"]
  by (simp add: fooField_def NewInputField_def fooEntries_def)

text \<open>
  The suggestion is not \<open>bar\<close>: it is empty after Autocomplete() and after the
  callback for the highlighted candidate \<open>foo\<close>, and \<open>ar\<close> after the callback for
  the candidate \<open>foobar\<close>.
\<close>

theorem suggestion_counterexample:
  "autocompleteListSuggestion (Autocomplete fooField) \<noteq> ''bar''
   \<and> map_option GetCurrentItem (autocompleteList (Autocomplete fooField))
       = Some (Some \<lparr>mainText = ''foo'', secondaryText = [], enabled = True\<rparr>)
   \<and> autocompleteListSuggestion
        (autocompleteChanged 0 \<lparr>mainText = ''foo'', secondaryText = [], enabled = True\<rparr>
           (Autocomplete fooField)) = []
   \<and> autocompleteListSuggestion
        (autocompleteChanged 1 \<lparr>mainText = ''foobar'', secondaryText = [], enabled = True\<rparr>
           (Autocomplete fooField)) = ''ar''"
  by (simp add: fooField_def NewInputField_def fooEntries_def
      Autocomplete_def NewList_def Clear_def AddItem_def SetCurrentItem_def autocompleteChanged_def
      GetCurrentItem_def GetItemCount_def len_def slice_from_def Let_def)

section \<open>The mask character\<close>









section \<open>Toggling the checkbox\<close>

lemma CheckBox_InputHandler_select:
  assumes "HitShortcut event [Select Keys, Select2 Keys]"
  shows "CheckBox_InputHandler Keys event c
     = c\<lparr>checked := \<not> checked c,
         cbChangedCalls := (if cbChanged c then cbChangedCalls c @ [\<not> checked c] else cbChangedCalls c)\<rparr>"
  using assms by (simp add: CheckBox_InputHandler_def WrapInputHandler_def Let_def)

lemma CheckBox_MouseHandler_click:
  assumes "InRect (cbBox c) (mouseX event) (mouseY event)"
    "mouseY event = fst (snd (GetInnerRect (cbBox c)))"
  shows "CheckBox_MouseHandler MouseLeftClick event c
     = (True, c\<lparr>cbSetFocusCalls := cbSetFocusCalls c + 1, checked := \<not> checked c,
         cbChangedCalls := (if cbChanged c then cbChangedCalls c @ [\<not> checked c] else cbChangedCalls c)\<rparr>)"
  using assms
  by (simp add: CheckBox_MouseHandler_def WrapMouseHandler_def Position_def Let_def split: prod.splits)

lemma deliver_toggles:
  assumes "selectOrClickOnRow Keys c e"
  shows "checked (deliver Keys e c) = (\<not> checked c)"
    "cbChangedCalls (deliver Keys e c)
       = cbChangedCalls c @ (if cbChanged c then [\<not> checked c] else [])"
    "cbChanged (deliver Keys e c) = cbChanged c" "cbBox (deliver Keys e c) = cbBox c"
  using assms
  by (cases e; simp add: selectOrClickOnRow_def CheckBox_InputHandler_select
      CheckBox_MouseHandler_click)+

lemma selectOrClickOnRow_box:
  "cbBox c1 = cbBox c \<Longrightarrow> selectOrClickOnRow Keys c1 e = selectOrClickOnRow Keys c e"
  by (cases e) (simp_all add: selectOrClickOnRow_def)

lemma deliverAll_toggles:
  "\<forall>e \<in> set events. selectOrClickOnRow Keys c e \<Longrightarrow>
     checked (deliverAll Keys events c)
       = (if even (length events) then checked c else \<not> checked c)
     \<and> cbChangedCalls (deliverAll Keys events c)
       = cbChangedCalls c @ (if cbChanged c then alternating (\<not> checked c) (length events) else [])"
proof (induction events arbitrary: c)
  case Nil
  then show ?case by simp
next
  case (Cons e events)
  have e: "selectOrClickOnRow Keys c e" using Cons.prems by simp
  have "\<forall>e' \<in> set events. selectOrClickOnRow Keys (deliver Keys e c) e'"
    using Cons.prems selectOrClickOnRow_box [OF deliver_toggles(4) [OF e]] by simp
  from Cons.IH [OF this] show ?case
    by (simp add: deliver_toggles [OF e])
qed

text \<open>
  C2, as the code has it: for every sequence of checkbox events that are Select key
  presses given to the input handler or left clicks given to the mouse handler at a
  position inside the rectangle and on the row of the inner rectangle, \<open>checked\<close>
  alternates, flipped once by each event, and the changed handler, when set, is called
  once per event with the new value of \<open>checked\<close>.
\<close>

theorem checkbox_toggles:
  assumes "\<forall>e \<in> set events. selectOrClickOnRow Keys c e" "n \<le> length events"
  shows "checked (deliverAll Keys (take n events) c) = (if even n then checked c else \<not> checked c)
     \<and> cbChangedCalls (deliverAll Keys (take n events) c)
       = cbChangedCalls c @ (if cbChanged c then alternating (\<not> checked c) n else [])"
proof -
  have "\<forall>e \<in> set (take n events). selectOrClickOnRow Keys c e"
    using assms(1) by (meson in_set_takeD)
  from deliverAll_toggles [OF this] assms(2) show ?thesis by simp
qed

theorem checkbox_toggles_witness:
  "list_all (selectOrClickOnRow defaultKeys watchedCheckBox) clicks
   \<and> checked (deliverAll defaultKeys (take 3 clicks) watchedCheckBox) = True
   \<and> cbChangedCalls (deliverAll defaultKeys (take 3 clicks) watchedCheckBox) = [True, False, True]"
proof -
  have a: "\<forall>e \<in> set clicks. selectOrClickOnRow defaultKeys watchedCheckBox e"
    by (simp add: clicks_def selectOrClickOnRow_def HitShortcut_def defaultKeys_def
        watchedCheckBox_def NewCheckBox_def NewBox_def SetRect_def InRect_def GetRect_def
        GetInnerRect_def)
  have b: "(3::nat) \<le> length clicks" by (simp add: clicks_def)
  have c: "alternating True 3 = [True, False, True]" by (simp add: eval_nat_numeral)
  from checkbox_toggles [OF a b] a c show ?thesis
    by (simp add: list_all_iff watchedCheckBox_def NewCheckBox_def)
qed

text \<open>
  A left click inside the rectangle, one row below the row of the inner rectangle,
  flips nothing and calls nothing.
\<close>

theorem click_off_row_counterexample:
  "selectOrClickInside defaultKeys watchedCheckBox
      (MouseEvent MouseLeftClick \<lparr>mouseX = 2, mouseY = 1\<rparr>)
   \<and> checked (deliver defaultKeys (MouseEvent MouseLeftClick \<lparr>mouseX = 2, mouseY = 1\<rparr>)
        watchedCheckBox) = checked watchedCheckBox
   \<and> cbChangedCalls (deliver defaultKeys (MouseEvent MouseLeftClick \<lparr>mouseX = 2, mouseY = 1\<rparr>)
        watchedCheckBox) = []"
  by (simp add: selectOrClickInside_def watchedCheckBox_def NewCheckBox_def NewBox_def SetRect_def
      InRect_def GetRect_def GetInnerRect_def CheckBox_MouseHandler_def WrapMouseHandler_def
      Position_def)

section \<open>The rectangle of the modal\<close>

lemma fold_buttonsWidth:
  fixes f :: "string \<Rightarrow> int"
  shows "fold (\<lambda>button buttonsWidth. buttonsWidth + (f (buttonLabel button) + 4 + 2)) bs a
     = a + (\<Sum>l\<leftarrow>map buttonLabel bs. f l + 6)"
  by (induction bs arbitrary: a) simp_all

lemma quo_2: "\<bar>a - 2 * quo a 2\<bar> \<le> 1"
proof (cases "a \<ge> 0")
  case True
  then have "quo a 2 = a div 2" by (simp add: quo_def)
  then show ?thesis by (simp; presburger)
next
  case False
  then have "quo a 2 = - ((- a) div 2)" by (simp add: quo_def)
  then show ?thesis by (simp; presburger)
qed

lemma quo_nonneg: "0 \<le> a \<Longrightarrow> 0 < b \<Longrightarrow> quo a b = a div b"
  by (simp add: quo_def)

lemma Modal_Draw_rect:
  "GetRect (modalBox (Modal_Draw u (screenWidth, screenHeight) m))
     = (quo (screenWidth - modalWidth u screenWidth (map buttonLabel (buttons (form m)))) 2,
        quo (screenHeight - modalHeight u screenWidth (map buttonLabel (buttons (form m)))
                              (modalText m) (GetFormItemCount (form m))) 2,
        modalWidth u screenWidth (map buttonLabel (buttons (form m))),
        modalHeight u screenWidth (map buttonLabel (buttons (form m))) (modalText m)
          (GetFormItemCount (form m)))"
  unfolding Modal_Draw_def fold_buttonsWidth
  by (simp add: Let_def GetRect_def SetRect_def modalWidth_def modalHeight_def max_def)

lemma Modal_Draw_frame_rect:
  "GetRect (frameBox (frame (Modal_Draw u screenSize m))) = GetRect (modalBox (Modal_Draw u screenSize m))"
  by (cases screenSize) (simp add: Modal_Draw_def Let_def GetRect_def SetRect_def)

lemma Modal_Draw_inputs:
  "modalText (Modal_Draw u screenSize m) = modalText m"
  "form (Modal_Draw u screenSize m) = form m"
  by (cases screenSize; simp add: Modal_Draw_def Let_def)+


text \<open>
  C3: the rectangle Draw assigns to the modal (and to its frame) is a function of the
  screen size, the message, the button labels and the number of form items. Its width is
  the larger of a third of the screen width and the width of the row of buttons, plus 4;
  its height is the number of word-wrapped lines of the message, plus 2 for each form
  item, plus 6; it is centred on the screen, the margins on either side differing by at
  most one cell. A second Draw, and a Draw of any modal with the same message, labels and
  number of items, assigns the same rectangle.
\<close>

theorem modal_rectangle:
  "(let labels = map buttonLabel (buttons (form m));
        width = max (quo screenWidth 3) ((\<Sum>l\<leftarrow>labels. TaggedStringWidth u l + 6) - 2) + 4;
        height = int (length (WordWrap u (modalText m) (width - 4)))
                   + GetFormItemCount (form m) * 2 + 6;
        x = quo (screenWidth - width) 2;
        y = quo (screenHeight - height) 2
    in GetRect (modalBox (Modal_Draw u (screenWidth, screenHeight) m)) = (x, y, width, height)
       \<and> GetRect (frameBox (frame (Modal_Draw u (screenWidth, screenHeight) m)))
           = (x, y, width, height)
       \<and> \<bar>x - (screenWidth - (x + width))\<bar> \<le> 1 \<and> \<bar>y - (screenHeight - (y + height))\<bar> \<le> 1)
   \<and> GetRect (modalBox (Modal_Draw u (screenWidth, screenHeight)
                           (Modal_Draw u (screenWidth, screenHeight) m)))
       = GetRect (modalBox (Modal_Draw u (screenWidth, screenHeight) m))
   \<and> (modalText m' = modalText m
        \<and> map buttonLabel (buttons (form m')) = map buttonLabel (buttons (form m))
        \<and> GetFormItemCount (form m') = GetFormItemCount (form m) \<longrightarrow>
        GetRect (modalBox (Modal_Draw u (screenWidth, screenHeight) m'))
          = GetRect (modalBox (Modal_Draw u (screenWidth, screenHeight) m)))"
proof (intro conjI impI)
  define labels where "labels = map buttonLabel (buttons (form m))"
  define width where "width = modalWidth u screenWidth labels"
  define height where "height = modalHeight u screenWidth labels (modalText m) (GetFormItemCount (form m))"
  have r: "GetRect (modalBox (Modal_Draw u (screenWidth, screenHeight) m))
      = (quo (screenWidth - width) 2, quo (screenHeight - height) 2, width, height)"
    by (simp add: Modal_Draw_rect width_def height_def labels_def)
  have cx: "\<bar>quo (screenWidth - width) 2 - (screenWidth - (quo (screenWidth - width) 2 + width))\<bar> \<le> 1"
    using quo_2 [of "screenWidth - width"] by simp
  have cy: "\<bar>quo (screenHeight - height) 2 - (screenHeight - (quo (screenHeight - height) 2 + height))\<bar> \<le> 1"
    using quo_2 [of "screenHeight - height"] by simp
  show "let labels = map buttonLabel (buttons (form m));
        width = max (quo screenWidth 3) ((\<Sum>l\<leftarrow>labels. TaggedStringWidth u l + 6) - 2) + 4;
        height = int (length (WordWrap u (modalText m) (width - 4)))
                   + GetFormItemCount (form m) * 2 + 6;
        x = quo (screenWidth - width) 2;
        y = quo (screenHeight - height) 2
    in GetRect (modalBox (Modal_Draw u (screenWidth, screenHeight) m)) = (x, y, width, height)
       \<and> GetRect (frameBox (frame (Modal_Draw u (screenWidth, screenHeight) m)))
           = (x, y, width, height)
       \<and> \<bar>x - (screenWidth - (x + width))\<bar> \<le> 1 \<and> \<bar>y - (screenHeight - (y + height))\<bar> \<le> 1"
    using r cx cy Modal_Draw_frame_rect [of u "(screenWidth, screenHeight)" m]
    unfolding Let_def width_def height_def labels_def modalWidth_def modalHeight_def
    by simp
next
  show "GetRect (modalBox (Modal_Draw u (screenWidth, screenHeight)
                           (Modal_Draw u (screenWidth, screenHeight) m)))
       = GetRect (modalBox (Modal_Draw u (screenWidth, screenHeight) m))"
    by (simp add: Modal_Draw_rect Modal_Draw_inputs)
next
  assume "modalText m' = modalText m
        \<and> map buttonLabel (buttons (form m')) = map buttonLabel (buttons (form m))
        \<and> GetFormItemCount (form m') = GetFormItemCount (form m)"
  then show "GetRect (modalBox (Modal_Draw u (screenWidth, screenHeight) m'))
          = GetRect (modalBox (Modal_Draw u (screenWidth, screenHeight) m))"
    by (simp add: Modal_Draw_rect)
qed

theorem modal_rectangle_witness:
  "GetRect (modalBox (Modal_Draw plainUtil (80, 24) quitModal)) = (25, 8, 30, 7)
   \<and> GetRect (modalBox (Modal_Draw plainUtil (80, 24) (Modal_Draw plainUtil (80, 24) quitModal)))
       = (25, 8, 30, 7)
   \<and> GetRect (modalBox (Modal_Draw plainUtil (80, 24)
        (quitModal\<lparr>modalBox := SetRect 1 2 3 4 NewBox\<rparr>))) = (25, 8, 30, 7)"
  using modal_rectangle [where u = plainUtil and screenWidth = 80 and screenHeight = 24
      and m = quitModal and m' = "quitModal\<lparr>modalBox := SetRect 1 2 3 4 NewBox\<rparr>"]
  by (simp add: Let_def quitModal_def AddButtons_def Modal_SetText_def NewModal_def plainUtil_def
      len_def GetFormItemCount_def quo_def)

end
